theory Spec2Isabelle
  imports Complex_Main
begin

section \<open>Values produced by \<^verbatim>\<open>JSON.parse\<close>\<close>

text \<open>
  The converter works on the value tree that \<^verbatim>\<open>JSON.parse\<close> returns. A JavaScript number
  is a double: every finite double is a rational, and an overflowing literal such as
  \<^verbatim>\<open>1e999\<close> parses to an infinity. An object is kept as the sequence of its own
  enumerable properties in the order \<^verbatim>\<open>Object.entries\<close> lists them. Strings are
  sequences of code units, and a \<^typ>\<open>char\<close> is a code unit below \<open>0x100\<close> (ASCII and
  Latin-1).
\<close>

datatype jsnumber = Finite rat | PosInfinity | NegInfinity

datatype json =
    JNull
  | JBool bool
  | JNum jsnumber
  | JStr string
  | JArr "json list"
  | JObj "(string \<times> json) list"

datatype error = SyntaxError | TypeError

datatype jstype = TObject | TString | TNumber | TBoolean

fun typeof :: "json \<Rightarrow> jstype" where
  "typeof JNull = TObject"
| "typeof (JBool b) = TBoolean"
| "typeof (JNum n) = TNumber"
| "typeof (JStr s) = TString"
| "typeof (JArr xs) = TObject"
| "typeof (JObj kvs) = TObject"

fun Array_isArray :: "json \<Rightarrow> bool" where
  "Array_isArray (JArr xs) = True"
| "Array_isArray v = False"

text \<open>The elements of an array value; used only under an \<^const>\<open>Array_isArray\<close> test.\<close>

fun elements :: "json \<Rightarrow> json list" where
  "elements (JArr xs) = xs"
| "elements v = []"

fun Number_isInteger :: "jsnumber \<Rightarrow> bool" where
  "Number_isInteger (Finite x) = (frac x = 0)"
| "Number_isInteger PosInfinity = False"
| "Number_isInteger NegInfinity = False"

subsection \<open>String primitives\<close>

definition digit_char :: "nat \<Rightarrow> char" where
  "digit_char d = ''0123456789'' ! d"

fun decimal :: "nat \<Rightarrow> string" where
  "decimal n = (if n < 10 then [digit_char n] else decimal (n div 10) @ [digit_char (n mod 10)])"

declare decimal.simps [simp del]

text \<open>
  \<^verbatim>\<open>c.toUpperCase()\<close> for one code unit: a lower-case letter of ASCII or Latin-1 becomes
  its capital, the sharp s (\<open>0xDF\<close>) becomes \<^verbatim>\<open>SS\<close>, every other character stays. The
  capitals of \<open>0xB5\<close> and \<open>0xFF\<close> are code units above \<open>0xFF\<close>, which a \<^typ>\<open>char\<close>
  cannot hold: these two are left as they are.
\<close>

definition lowerCaseLetters :: string where
  "lowerCaseLetters = ''abcdefghijklmnopqrstuvwxyz'' @
     [
        CHR 0xE0, CHR 0xE1, CHR 0xE2, CHR 0xE3, CHR 0xE4, CHR 0xE5, CHR 0xE6, CHR 0xE7,
        CHR 0xE8, CHR 0xE9, CHR 0xEA, CHR 0xEB, CHR 0xEC, CHR 0xED, CHR 0xEE, CHR 0xEF,
        CHR 0xF0, CHR 0xF1, CHR 0xF2, CHR 0xF3, CHR 0xF4, CHR 0xF5, CHR 0xF6, CHR 0xF8,
        CHR 0xF9, CHR 0xFA, CHR 0xFB, CHR 0xFC, CHR 0xFD, CHR 0xFE]"

definition upperCaseLetters :: string where
  "upperCaseLetters = ''ABCDEFGHIJKLMNOPQRSTUVWXYZ'' @
     [
        CHR 0xC0, CHR 0xC1, CHR 0xC2, CHR 0xC3, CHR 0xC4, CHR 0xC5, CHR 0xC6, CHR 0xC7,
        CHR 0xC8, CHR 0xC9, CHR 0xCA, CHR 0xCB, CHR 0xCC, CHR 0xCD, CHR 0xCE, CHR 0xCF,
        CHR 0xD0, CHR 0xD1, CHR 0xD2, CHR 0xD3, CHR 0xD4, CHR 0xD5, CHR 0xD6, CHR 0xD8,
        CHR 0xD9, CHR 0xDA, CHR 0xDB, CHR 0xDC, CHR 0xDD, CHR 0xDE]"

definition toUpperCase :: "char \<Rightarrow> string" where
  "toUpperCase c =
     (if c = CHR 0xDF then ''SS''
      else
        (case map_of (zip lowerCaseLetters upperCaseLetters) c of
           Some u \<Rightarrow> [u]
         | None \<Rightarrow> [c]))"

text \<open>\<^verbatim>\<open>key.replace(/s$/, '')\<close>: one trailing \<^verbatim>\<open>s\<close> is dropped when there is one.\<close>

definition replace_trailing_s :: "string \<Rightarrow> string" where
  "replace_trailing_s key =
     (if key \<noteq> [] \<and> last key = CHR ''s'' then butlast key else key)"

text \<open>
  \<^verbatim>\<open>str.charAt(0).toUpperCase() + str.slice(1)\<close>: \<^verbatim>\<open>charAt(0)\<close> of the empty string is
  the empty string, and so is its \<^verbatim>\<open>slice(1)\<close>.
\<close>

definition capitalizeFirst :: "string \<Rightarrow> string" where
  "capitalizeFirst str = concat (map toUpperCase (take 1 str)) @ drop 1 str"

text \<open>
  \<^verbatim>\<open>Object.entries\<close>: the own enumerable string-keyed properties. It throws a
  \<^verbatim>\<open>TypeError\<close> on \<^verbatim>\<open>null\<close>, lists the indices of an array or of a string, and
  lists nothing for a number or a boolean.
\<close>

fun Object_entries :: "json \<Rightarrow> error + (string \<times> json) list" where
  "Object_entries JNull = Inl TypeError"
| "Object_entries (JBool b) = Inr []"
| "Object_entries (JNum n) = Inr []"
| "Object_entries (JStr s) = Inr (zip (map decimal [0..<length s]) (map (\<lambda>c. JStr [c]) s))"
| "Object_entries (JArr xs) = Inr (zip (map decimal [0..<length xs]) xs)"
| "Object_entries (JObj kvs) = Inr kvs"

section \<open>The generator\<close>

fun generateFieldType :: "json \<Rightarrow> string \<Rightarrow> string" where
  "generateFieldType JNull key = ''dynamic''"
| "generateFieldType (JStr s) key = ''String''"
| "generateFieldType (JNum n) key = (if Number_isInteger n then ''int'' else ''double'')"
| "generateFieldType (JBool b) key = ''bool''"
| "generateFieldType (JArr []) key = ''List<dynamic>''"
| "generateFieldType (JArr (firstItem # rest)) key =
     (if typeof firstItem = TObject \<and> firstItem \<noteq> JNull then
        (let itemClassName = capitalizeFirst (replace_trailing_s key)
         in ''List<'' @ itemClassName @ ''>'')
      else ''List<'' @ generateFieldType firstItem key @ ''>'')"
| "generateFieldType (JObj kvs) key = capitalizeFirst key"

text \<open>The three loops of \<^verbatim>\<open>generateClassContent\<close> over the entries, and the one over the keys.\<close>

definition fieldsLoop :: "(string \<times> json) list \<Rightarrow> string \<Rightarrow> string" where
  "fieldsLoop entries content =
     foldl (\<lambda>content (key, value).
        content @ ''  final '' @ generateFieldType value key @ ''? '' @ key @ '';\<newline>'')
       content entries"

definition constructorLoop :: "string list \<Rightarrow> string \<Rightarrow> string" where
  "constructorLoop fields content =
     foldl (\<lambda>content field. content @ ''    this.'' @ field @ '',\<newline>'') content fields"

text \<open>The text \<^verbatim>\<open>'${key}'\<close> of a template literal.\<close>

definition quoted :: "string \<Rightarrow> string" where
  "quoted key = CHR 0x27 # key @ [CHR 0x27]"

definition fromJsonLoop :: "(string \<times> json) list \<Rightarrow> string \<Rightarrow> string" where
  "fromJsonLoop entries content =
     foldl (\<lambda>content (key, value).
        if typeof value = TObject \<and> value \<noteq> JNull \<and> \<not> Array_isArray value then
          (let nestedClassName = capitalizeFirst key
           in content @ ''      '' @ key @ '': json['' @ quoted key @ ''] != null ? ''
                @ nestedClassName @ ''.fromJson(json['' @ quoted key @ '']) : null,\<newline>'')
        else if Array_isArray value \<and> length (elements value) > 0
                \<and> typeof (elements value ! 0) = TObject then
          (let itemClassName = capitalizeFirst (replace_trailing_s key)
           in content @ ''      '' @ key @ '': json['' @ quoted key @ ''] != null ? (json[''
                @ quoted key @ ''] as List).map((item) => '' @ itemClassName
                @ ''.fromJson(item)).toList() : null,\<newline>'')
        else content @ ''      '' @ key @ '': json['' @ quoted key @ ''],\<newline>'')
       content entries"

definition toJsonLoop :: "(string \<times> json) list \<Rightarrow> string \<Rightarrow> string" where
  "toJsonLoop entries content =
     foldl (\<lambda>content (key, value).
        if typeof value = TObject \<and> value \<noteq> JNull \<and> \<not> Array_isArray value then
          content @ ''      '' @ quoted key @ '': '' @ key @ ''?.toJson(),\<newline>''
        else if Array_isArray value \<and> length (elements value) > 0
                \<and> typeof (elements value ! 0) = TObject then
          content @ ''      '' @ quoted key @ '': '' @ key
            @ ''?.map((item) => item.toJson()).toList(),\<newline>''
        else content @ ''      '' @ quoted key @ '': '' @ key @ '',\<newline>'')
       content entries"

text \<open>
  \<^verbatim>\<open>generateClassContent\<close>. Its first statement reads \<^verbatim>\<open>Object.entries(obj)\<close>, which
  throws on \<^verbatim>\<open>null\<close>; the later calls of \<^verbatim>\<open>Object.entries\<close> and
  \<^verbatim>\<open>Object.keys\<close> see the same object.
\<close>

definition generateClassContent :: "json \<Rightarrow> string \<Rightarrow> error + string" where
  "generateClassContent obj className =
     (case Object_entries obj of
        Inl e \<Rightarrow> Inl e
      | Inr entries \<Rightarrow>
          (let content = [];
               content = fieldsLoop entries content;
               content = content @ ''\<newline>'';
               fields = map fst entries;
               content = content @ ''  '' @ className @ ''({\<newline>'';
               content = constructorLoop fields content;
               content = content @ ''  });\<newline>\<newline>'';
               content = content @ ''  factory '' @ className
                           @ ''.fromJson(Map<String, dynamic> json) {\<newline>'';
               content = content @ ''    return '' @ className @ ''(\<newline>'';
               content = fromJsonLoop entries content;
               content = content @ ''    );\<newline>'';
               content = content @ ''  }\<newline>\<newline>'';
               content = content @ ''  Map<String, dynamic> toJson() {\<newline>'';
               content = content @ ''    return {\<newline>'';
               content = toJsonLoop entries content;
               content = content @ ''    };\<newline>'';
               content = content @ ''  }\<newline>''
           in Inr content))"

text \<open>
  The size that decreases along the recursion of \<^verbatim>\<open>generateNestedClasses\<close>: the loop
  descends only into object-typed entries, never into the one-character strings that
  \<^const>\<open>Object_entries\<close> lists for a string.
\<close>

fun jsize :: "json \<Rightarrow> nat" where
  "jsize (JArr xs) = 1 + sum_list (map (\<lambda>x. jsize x + 1) xs)"
| "jsize (JObj kvs) = 1 + sum_list (map (\<lambda>(k, v). jsize v + 1) kvs)"
| "jsize v = 0"

definition descent_weight :: "(string \<times> json) list \<Rightarrow> nat" where
  "descent_weight entries =
     sum_list (map (\<lambda>(k, v). if typeof v = TObject then jsize v + 1 else 0) entries)"

lemma descent_weight_Nil [simp]: "descent_weight [] = 0"
  by (simp add: descent_weight_def)

lemma descent_weight_Cons [simp]:
  "descent_weight ((k, v) # rest) =
     (if typeof v = TObject then jsize v + 1 else 0) + descent_weight rest"
  by (simp add: descent_weight_def)

lemma descent_weight_zip_le:
  "descent_weight (zip ks xs) \<le> sum_list (map (\<lambda>x. jsize x + 1) xs)"
proof (induction xs arbitrary: ks)
  case Nil
  then show ?case by simp
next
  case (Cons x xs)
  show ?case
  proof (cases ks)
    case Nil
    then show ?thesis by simp
  next
    case (Cons k ks')
    with Cons.IH [of ks'] show ?thesis by simp
  qed
qed

lemma descent_weight_strings: "descent_weight (zip ks (map (\<lambda>c. JStr [c]) s)) = 0"
proof (induction s arbitrary: ks)
  case Nil
  then show ?case by simp
next
  case (Cons c s)
  then show ?case by (cases ks) simp_all
qed

lemma descent_weight_pairs:
  "descent_weight kvs \<le> sum_list (map (\<lambda>(k, v). jsize v + 1) kvs)"
  by (induction kvs) (auto simp: descent_weight_def)

lemma descent_weight_entries:
  "Object_entries obj = Inr entries \<Longrightarrow> descent_weight entries \<le> jsize obj"
proof (cases obj)
  case (JStr s)
  assume "Object_entries obj = Inr entries"
  with JStr show ?thesis by (auto simp: descent_weight_strings)
next
  case (JArr xs)
  assume "Object_entries obj = Inr entries"
  with JArr descent_weight_zip_le [of "map decimal [0..<length xs]" xs]
  show ?thesis by auto
next
  case (JObj kvs)
  assume "Object_entries obj = Inr entries"
  with JObj descent_weight_pairs [of kvs] show ?thesis by auto
qed auto

lemma jsize_first_element:
  "Array_isArray v \<Longrightarrow> 0 < length (elements v) \<Longrightarrow>
     typeof v = TObject \<and> jsize (elements v ! 0) < jsize v"
proof (cases v)
  case (JArr xs)
  assume "0 < length (elements v)"
  with JArr show ?thesis by (cases xs) simp_all
qed simp_all

text \<open>
  \<^verbatim>\<open>generateNestedClasses\<close> and its loop over the entries. A call that throws ends the
  loop and the callers with that error.
\<close>

function generateNestedClasses :: "json \<Rightarrow> string \<Rightarrow> error + string"
  and nestedLoop :: "(string \<times> json) list \<Rightarrow> string \<Rightarrow> error + string"
where
  "generateNestedClasses obj className =
     (case Object_entries obj of
        Inl e \<Rightarrow> Inl e
      | Inr entries \<Rightarrow> nestedLoop entries [])"
| "nestedLoop [] nestedClasses = Inr nestedClasses"
| "nestedLoop ((key, value) # rest) nestedClasses =
     (if typeof value = TObject \<and> value \<noteq> JNull \<and> \<not> Array_isArray value then
        (let nestedClassName = capitalizeFirst key
         in case generateNestedClasses value nestedClassName of
              Inl e \<Rightarrow> Inl e
            | Inr nested \<Rightarrow>
                (case generateClassContent value nestedClassName of
                   Inl e \<Rightarrow> Inl e
                 | Inr content \<Rightarrow>
                     nestedLoop rest
                       (nestedClasses @ nested @ ''\<newline>class '' @ nestedClassName
                          @ '' {\<newline>'' @ content @ ''}\<newline>'')))
      else if Array_isArray value \<and> length (elements value) > 0
              \<and> typeof (elements value ! 0) = TObject then
        (let itemClassName = capitalizeFirst (replace_trailing_s key)
         in case generateNestedClasses (elements value ! 0) itemClassName of
              Inl e \<Rightarrow> Inl e
            | Inr nested \<Rightarrow>
                (case generateClassContent (elements value ! 0) itemClassName of
                   Inl e \<Rightarrow> Inl e
                 | Inr content \<Rightarrow>
                     nestedLoop rest
                       (nestedClasses @ nested @ ''\<newline>class '' @ itemClassName
                          @ '' {\<newline>'' @ content @ ''}\<newline>'')))
      else nestedLoop rest nestedClasses)"
  by pat_completeness auto
termination
proof (relation "measures
    [\<lambda>x. case x of Inl (obj, cn) \<Rightarrow> jsize obj | Inr (entries, acc) \<Rightarrow> descent_weight entries,
     \<lambda>x. case x of Inl (obj, cn) \<Rightarrow> 1 | Inr (entries, acc) \<Rightarrow> 0,
     \<lambda>x. case x of Inl (obj, cn) \<Rightarrow> 0 | Inr (entries, acc) \<Rightarrow> length entries]",
    goal_cases)
  case 1
  then show ?case by simp
next
  case (2 obj className entries)
  then show ?case using descent_weight_entries [of obj entries] by auto
next
  case (3 key "value" rest nestedClasses nestedClassName)
  then show ?case by auto
next
  case (4 key "value" rest nestedClasses nestedClassName nested content)
  then show ?case by auto
next
  case (5 key "value" rest nestedClasses itemClassName)
  then show ?case using jsize_first_element [of "value"] by auto
next
  case (6 key "value" rest nestedClasses itemClassName nested content)
  then show ?case by auto
next
  case (7 key "value" rest nestedClasses)
  then show ?case by auto
qed

definition generateDartClass :: "json \<Rightarrow> string \<Rightarrow> error + string" where
  "generateDartClass json className =
     (case generateNestedClasses json className of
        Inl e \<Rightarrow> Inl e
      | Inr nestedClasses \<Rightarrow>
          (case generateClassContent json className of
             Inl e \<Rightarrow> Inl e
           | Inr content \<Rightarrow>
               Inr (nestedClasses @ ''\<newline>class '' @ className @ '' {\<newline>''
                      @ content @ ''}\<newline>'')))"

section \<open>The conversion request\<close>

text \<open>
  The component state that \<^verbatim>\<open>convertJsonToDart\<close> reads and writes, with the toasts it
  raises kept as a log. \<^verbatim>\<open>JSON.parse\<close> is the platform's: it is a parameter, returning
  the parsed value or the \<^verbatim>\<open>SyntaxError\<close> it throws.
\<close>

record toast =
  title :: string
  description :: string
  variant :: string

record state =
  jsonInput :: string
  className :: string
  dartOutput :: string
  isConverting :: bool
  toasts :: "toast list"

text \<open>
  \<^verbatim>\<open>trim\<close> strips white space and line terminators at both ends: below \<open>0x100\<close>
  these are tab, line feed, vertical tab, form feed, carriage return, space and the
  no-break space \<open>0xA0\<close>.
\<close>

definition isWhiteSpace :: "char \<Rightarrow> bool" where
  "isWhiteSpace c =
     (c \<in> set [CHR 0x09, CHR 0x0A, CHR 0x0B, CHR 0x0C, CHR 0x0D, CHR '' '', CHR 0xA0])"

definition String_trim :: "string \<Rightarrow> string" where
  "String_trim s = rev (dropWhile isWhiteSpace (rev (dropWhile isWhiteSpace s)))"

definition emptyInputToast :: toast where
  "emptyInputToast =
     \<lparr>title = ''Error'', description = ''Please enter a valid JSON string'',
      variant = ''destructive''\<rparr>"

definition successToast :: toast where
  "successToast =
     \<lparr>title = ''Success'', description = ''JSON converted to Dart model successfully!'',
      variant = ''default''\<rparr>"

definition invalidJsonToast :: toast where
  "invalidJsonToast =
     \<lparr>title = ''Error'', description = ''Invalid JSON format. Please check your input.'',
      variant = ''destructive''\<rparr>"

definition convertJsonToDart :: "(string \<Rightarrow> error + json) \<Rightarrow> state \<Rightarrow> state" where
  "convertJsonToDart JSON_parse s =
     (if String_trim (jsonInput s) = [] then s\<lparr>toasts := toasts s @ [emptyInputToast]\<rparr>
      else
        (let s = s\<lparr>isConverting := True\<rparr>;
             s = (case JSON_parse (jsonInput s) of
                    Inl e \<Rightarrow> s\<lparr>toasts := toasts s @ [invalidJsonToast]\<rparr>
                  | Inr parsedJson \<Rightarrow>
                      (case generateDartClass parsedJson (className s) of
                         Inl e \<Rightarrow> s\<lparr>toasts := toasts s @ [invalidJsonToast]\<rparr>
                       | Inr dartClass \<Rightarrow>
                           s\<lparr>dartOutput := dartClass, toasts := toasts s @ [successToast]\<rparr>))
         in s\<lparr>isConverting := False\<rparr>))"

section \<open>The structure of the generated text\<close>

text \<open>
  The type expression whose text \<^const>\<open>generateFieldType\<close> returns, branch by branch,
  and the class names it mentions.
\<close>

datatype typeExpr = Dynamic | Scalar string | ListOf typeExpr | NamedClass string

fun fieldTypeExpr :: "json \<Rightarrow> string \<Rightarrow> typeExpr" where
  "fieldTypeExpr JNull key = Dynamic"
| "fieldTypeExpr (JStr s) key = Scalar ''String''"
| "fieldTypeExpr (JNum n) key = (if Number_isInteger n then Scalar ''int'' else Scalar ''double'')"
| "fieldTypeExpr (JBool b) key = Scalar ''bool''"
| "fieldTypeExpr (JArr []) key = ListOf Dynamic"
| "fieldTypeExpr (JArr (firstItem # rest)) key =
     (if typeof firstItem = TObject \<and> firstItem \<noteq> JNull then
        ListOf (NamedClass (capitalizeFirst (replace_trailing_s key)))
      else ListOf (fieldTypeExpr firstItem key))"
| "fieldTypeExpr (JObj kvs) key = NamedClass (capitalizeFirst key)"

fun renderType :: "typeExpr \<Rightarrow> string" where
  "renderType Dynamic = ''dynamic''"
| "renderType (Scalar n) = n"
| "renderType (ListOf t) = ''List<'' @ renderType t @ ''>''"
| "renderType (NamedClass n) = n"

fun namedClasses :: "typeExpr \<Rightarrow> string list" where
  "namedClasses (NamedClass n) = [n]"
| "namedClasses (ListOf t) = namedClasses t"
| "namedClasses t = []"

fun isScalar :: "typeExpr \<Rightarrow> bool" where
  "isScalar (Scalar n) = True"
| "isScalar t = False"

text \<open>
  One emitted class: its name, the entries of the object it was generated from, and how
  deep below the root that object was found (the root class is at level 0).
\<close>

record classSpec =
  specName :: string
  specFields :: "(string \<times> json) list"
  specLevel :: nat

definition fieldRefs :: "(string \<times> json) list \<Rightarrow> string list" where
  "fieldRefs entries = concat (map (\<lambda>(key, value). namedClasses (fieldTypeExpr value key)) entries)"

text \<open>The text of one class: header, content and closing brace, as the generator appends them.\<close>

definition classContentText :: "(string \<times> json) list \<Rightarrow> string \<Rightarrow> string" where
  "classContentText entries cn =
     fieldsLoop entries [] @ ''\<newline>''
       @ ''  '' @ cn @ ''({\<newline>'' @ constructorLoop (map fst entries) [] @ ''  });\<newline>\<newline>''
       @ ''  factory '' @ cn @ ''.fromJson(Map<String, dynamic> json) {\<newline>''
       @ ''    return '' @ cn @ ''(\<newline>'' @ fromJsonLoop entries [] @ ''    );\<newline>''
       @ ''  }\<newline>\<newline>''
       @ ''  Map<String, dynamic> toJson() {\<newline>''
       @ ''    return {\<newline>'' @ toJsonLoop entries [] @ ''    };\<newline>''
       @ ''  }\<newline>''"

definition classBlock :: "string \<Rightarrow> string \<Rightarrow> string" where
  "classBlock cn content = ''\<newline>class '' @ cn @ '' {\<newline>'' @ content @ ''}\<newline>''"

definition classText :: "classSpec \<Rightarrow> string" where
  "classText c = classBlock (specName c) (classContentText (specFields c) (specName c))"

text \<open>
  The classes \<^const>\<open>generateNestedClasses\<close> emits, in the order it emits them: the same
  walk, collecting a \<^typ>\<open>classSpec\<close> where the generator appends a class text.
\<close>

function nestedClassSpecs :: "json \<Rightarrow> nat \<Rightarrow> error + classSpec list"
  and specsLoop :: "(string \<times> json) list \<Rightarrow> nat \<Rightarrow> classSpec list \<Rightarrow> error + classSpec list"
where
  "nestedClassSpecs obj d =
     (case Object_entries obj of
        Inl e \<Rightarrow> Inl e
      | Inr entries \<Rightarrow> specsLoop entries d [])"
| "specsLoop [] d specs = Inr specs"
| "specsLoop ((key, value) # rest) d specs =
     (if typeof value = TObject \<and> value \<noteq> JNull \<and> \<not> Array_isArray value then
        (case nestedClassSpecs value (Suc d) of
           Inl e \<Rightarrow> Inl e
         | Inr nested \<Rightarrow>
             (case Object_entries value of
                Inl e \<Rightarrow> Inl e
              | Inr es \<Rightarrow>
                  specsLoop rest d
                    (specs @ nested
                       @ [\<lparr>specName = capitalizeFirst key, specFields = es, specLevel = Suc d\<rparr>])))
      else if Array_isArray value \<and> length (elements value) > 0
              \<and> typeof (elements value ! 0) = TObject then
        (case nestedClassSpecs (elements value ! 0) (Suc d) of
           Inl e \<Rightarrow> Inl e
         | Inr nested \<Rightarrow>
             (case Object_entries (elements value ! 0) of
                Inl e \<Rightarrow> Inl e
              | Inr es \<Rightarrow>
                  specsLoop rest d
                    (specs @ nested
                       @ [\<lparr>specName = capitalizeFirst (replace_trailing_s key), specFields = es,
                           specLevel = Suc d\<rparr>])))
      else specsLoop rest d specs)"
  by pat_completeness auto
termination
proof (relation "measures
    [\<lambda>x. case x of Inl (obj, d) \<Rightarrow> jsize obj | Inr (entries, d, acc) \<Rightarrow> descent_weight entries,
     \<lambda>x. case x of Inl (obj, d) \<Rightarrow> 1 | Inr (entries, d, acc) \<Rightarrow> 0,
     \<lambda>x. case x of Inl (obj, d) \<Rightarrow> 0 | Inr (entries, d, acc) \<Rightarrow> length entries]",
    goal_cases)
  case 1
  then show ?case by simp
next
  case (2 obj d entries)
  then show ?case using descent_weight_entries [of obj entries] by auto
next
  case (3 key "value" rest d specs)
  then show ?case by auto
next
  case (4 key "value" rest d specs nested es)
  then show ?case by auto
next
  case (5 key "value" rest d specs)
  then show ?case using jsize_first_element [of "value"] by auto
next
  case (6 key "value" rest d specs nested es)
  then show ?case by auto
next
  case (7 key "value" rest d specs)
  then show ?case by auto
qed

definition emittedClasses :: "json \<Rightarrow> string \<Rightarrow> error + classSpec list" where
  "emittedClasses json cn =
     (case nestedClassSpecs json 0 of
        Inl e \<Rightarrow> Inl e
      | Inr nested \<Rightarrow>
          (case Object_entries json of
             Inl e \<Rightarrow> Inl e
           | Inr es \<Rightarrow> Inr (nested @ [\<lparr>specName = cn, specFields = es, specLevel = 0\<rparr>])))"

text \<open>
  Every class named by a field of a class is the name of a class earlier in the list
  (\<open>seen\<close> holds the names before the list).
\<close>

fun definedBeforeUse :: "string list \<Rightarrow> classSpec list \<Rightarrow> bool" where
  "definedBeforeUse seen [] = True"
| "definedBeforeUse seen (c # cs) =
     (list_all (\<lambda>n. n \<in> set seen) (fieldRefs (specFields c)) \<and> definedBeforeUse (seen @ [specName c]) cs)"

text \<open>The same, asking for exactly one class of that name earlier in the list.\<close>

fun definedOnceBeforeUse :: "string list \<Rightarrow> classSpec list \<Rightarrow> bool" where
  "definedOnceBeforeUse seen [] = True"
| "definedOnceBeforeUse seen (c # cs) =
     (list_all (\<lambda>n. count_list seen n = 1) (fieldRefs (specFields c))
      \<and> definedOnceBeforeUse (seen @ [specName c]) cs)"

text \<open>
  The entry the collector emits a class for: the class name and the value the class is
  generated from. These are the two tests of its loop.
\<close>

definition nestedTarget :: "string \<Rightarrow> json \<Rightarrow> (string \<times> json) option" where
  "nestedTarget key value =
     (if typeof value = TObject \<and> value \<noteq> JNull \<and> \<not> Array_isArray value then
        Some (capitalizeFirst key, value)
      else if Array_isArray value \<and> length (elements value) > 0
              \<and> typeof (elements value ! 0) = TObject then
        Some (capitalizeFirst (replace_trailing_s key), elements value ! 0)
      else None)"

text \<open>A class none of whose fields makes the collector emit a class.\<close>

definition leafClass :: "classSpec \<Rightarrow> bool" where
  "leafClass c = list_all (\<lambda>(key, value). nestedTarget key value = None) (specFields c)"

text \<open>The first class of the list is nested at least as deep as every other.\<close>

fun deepestFirst :: "classSpec list \<Rightarrow> bool" where
  "deepestFirst [] = True"
| "deepestFirst (c # cs) = list_all (\<lambda>c'. specLevel c' \<le> specLevel c) cs"

text \<open>The lines of a field declaration and of a constructor parameter.\<close>

definition fieldLine :: "string \<times> json \<Rightarrow> string" where
  "fieldLine e = ''  final '' @ generateFieldType (snd e) (fst e) @ ''? '' @ fst e @ '';\<newline>''"

definition constructorLine :: "string \<Rightarrow> string" where
  "constructorLine field = ''    this.'' @ field @ '',\<newline>''"

text \<open>What one iteration of the collector's loop appends, as text and as classes.\<close>

definition entryText :: "string \<Rightarrow> json \<Rightarrow> error + string" where
  "entryText key value =
     (case nestedTarget key value of
        None \<Rightarrow> Inr []
      | Some (n, item) \<Rightarrow>
          (case generateNestedClasses item n of
             Inl e \<Rightarrow> Inl e
           | Inr nested \<Rightarrow>
               (case generateClassContent item n of
                  Inl e \<Rightarrow> Inl e
                | Inr content \<Rightarrow> Inr (nested @ classBlock n content))))"

definition entrySpecs :: "string \<Rightarrow> json \<Rightarrow> nat \<Rightarrow> error + classSpec list" where
  "entrySpecs key value d =
     (case nestedTarget key value of
        None \<Rightarrow> Inr []
      | Some (n, item) \<Rightarrow>
          (case nestedClassSpecs item (Suc d) of
             Inl e \<Rightarrow> Inl e
           | Inr nested \<Rightarrow>
               (case Object_entries item of
                  Inl e \<Rightarrow> Inl e
                | Inr es \<Rightarrow>
                    Inr (nested @ [\<lparr>specName = n, specFields = es, specLevel = Suc d\<rparr>]))))"

text \<open>The text of a list of classes.\<close>

definition renderClasses :: "classSpec list \<Rightarrow> string" where
  "renderClasses specs = concat (map classText specs)"

fun renderResult :: "error + classSpec list \<Rightarrow> error + string" where
  "renderResult (Inl e) = Inl e"
| "renderResult (Inr specs) = Inr (renderClasses specs)"

section \<open>Properties\<close>

declare generateNestedClasses.simps [simp del] nestedClassSpecs.simps [simp del]

subsection \<open>The loops append line by line\<close>

lemma foldl_append_lines:
  "foldl (\<lambda>content x. content @ f x) content xs = content @ concat (map f xs)"
  by (induction xs arbitrary: content) simp_all

lemma fieldsLoop_lines: "fieldsLoop es content = content @ concat (map fieldLine es)"
proof -
  have "(\<lambda>content (key, value).
           content @ ''  final '' @ generateFieldType value key @ ''? '' @ key @ '';\<newline>'')
        = (\<lambda>content e. content @ fieldLine e)"
    by (simp add: fun_eq_iff fieldLine_def)
  then show ?thesis
    unfolding fieldsLoop_def by (simp only: foldl_append_lines)
qed

lemma constructorLoop_lines:
  "constructorLoop ks content = content @ concat (map constructorLine ks)"
proof -
  have "(\<lambda>content field. content @ ''    this.'' @ field @ '',\<newline>'')
        = (\<lambda>content field. content @ constructorLine field)"
    by (simp add: fun_eq_iff constructorLine_def)
  then show ?thesis
    unfolding constructorLoop_def by (simp only: foldl_append_lines)
qed

lemma fromJsonLoop_append: "fromJsonLoop es content = content @ fromJsonLoop es []"
proof (induction es arbitrary: content rule: rev_induct)
  case Nil
  then show ?case by (simp add: fromJsonLoop_def)
next
  case (snoc e es)
  obtain key "value" where e: "e = (key, value)" by (cases e)
  have step: "fromJsonLoop (es @ [e]) c = fromJsonLoop [e] (fromJsonLoop es c)" for c
    by (simp add: fromJsonLoop_def)
  have one: "fromJsonLoop [e] c = c @ fromJsonLoop [e] []" for c
    by (simp add: fromJsonLoop_def e Let_def)
  show ?case
    using snoc.IH [of content] one [of "fromJsonLoop es content"] one [of "fromJsonLoop es []"]
    by (simp add: step)
qed

lemma toJsonLoop_append: "toJsonLoop es content = content @ toJsonLoop es []"
proof (induction es arbitrary: content rule: rev_induct)
  case Nil
  then show ?case by (simp add: toJsonLoop_def)
next
  case (snoc e es)
  obtain key "value" where e: "e = (key, value)" by (cases e)
  have step: "toJsonLoop (es @ [e]) c = toJsonLoop [e] (toJsonLoop es c)" for c
    by (simp add: toJsonLoop_def)
  have one: "toJsonLoop [e] c = c @ toJsonLoop [e] []" for c
    by (simp add: toJsonLoop_def e)
  show ?case
    using snoc.IH [of content] one [of "toJsonLoop es content"] one [of "toJsonLoop es []"]
    by (simp add: step)
qed

lemma generateClassContent_text:
  "generateClassContent obj cn =
     (case Object_entries obj of
        Inl e \<Rightarrow> Inl e
      | Inr es \<Rightarrow> Inr (classContentText es cn))"
proof (cases "Object_entries obj")
  case (Inl e)
  then show ?thesis by (simp add: generateClassContent_def)
next
  case (Inr es)
  have f: "fieldsLoop es [] = concat (map fieldLine es)"
    by (simp add: fieldsLoop_lines)
  show ?thesis
    unfolding generateClassContent_def classContentText_def Let_def Inr sum.case
    apply (subst toJsonLoop_append)
    apply (subst fromJsonLoop_append)
    apply (subst constructorLoop_lines)
    apply (simp only: f constructorLoop_lines append_Nil append_assoc)
    done
qed

subsection \<open>Field types and scalar fields\<close>

lemma generateFieldType_renderType: "generateFieldType v key = renderType (fieldTypeExpr v key)"
  by (induction v key rule: generateFieldType.induct) simp_all

lemma scalar_type_value:
  "isScalar (fieldTypeExpr v key) \<Longrightarrow> typeof v \<noteq> TObject \<and> \<not> Array_isArray v"
proof (cases v)
  case (JArr xs)
  assume "isScalar (fieldTypeExpr v key)"
  with JArr show ?thesis by (cases xs) (simp_all split: if_splits)
qed simp_all

lemma fromJsonLoop_Cons: "fromJsonLoop (e # es) [] = fromJsonLoop [e] [] @ fromJsonLoop es []"
proof -
  have "fromJsonLoop (e # es) [] = fromJsonLoop es (fromJsonLoop [e] [])"
    by (simp add: fromJsonLoop_def)
  then show ?thesis
    using fromJsonLoop_append [of es "fromJsonLoop [e] []"] by simp
qed

lemma toJsonLoop_Cons: "toJsonLoop (e # es) [] = toJsonLoop [e] [] @ toJsonLoop es []"
proof -
  have "toJsonLoop (e # es) [] = toJsonLoop es (toJsonLoop [e] [])"
    by (simp add: toJsonLoop_def)
  then show ?thesis
    using toJsonLoop_append [of es "toJsonLoop [e] []"] by simp
qed

lemma fromJsonLoop_scalar:
  "list_all (\<lambda>(key, value). isScalar (fieldTypeExpr value key)) es \<Longrightarrow>
     fromJsonLoop es [] =
       concat (map (\<lambda>key. ''      '' @ key @ '': json['' @ [CHR 0x27] @ key @ [CHR 0x27]
                              @ ''],\<newline>'') (map fst es))"
proof (induction es)
  case Nil
  then show ?case by (simp add: fromJsonLoop_def)
next
  case (Cons e es)
  obtain key "value" where e: "e = (key, value)" by (cases e)
  from Cons.prems e have "typeof value \<noteq> TObject \<and> \<not> Array_isArray value"
    using scalar_type_value [of "value" key] by simp
  then have "fromJsonLoop [e] [] =
      ''      '' @ key @ '': json['' @ [CHR 0x27] @ key @ [CHR 0x27] @ ''],\<newline>''"
    by (simp add: fromJsonLoop_def e quoted_def)
  moreover have "fromJsonLoop (e # es) [] = fromJsonLoop [e] [] @ fromJsonLoop es []"
    by (rule fromJsonLoop_Cons)
  ultimately show ?case
    using Cons e by simp
qed

lemma toJsonLoop_scalar:
  "list_all (\<lambda>(key, value). isScalar (fieldTypeExpr value key)) es \<Longrightarrow>
     toJsonLoop es [] =
       concat (map (\<lambda>key. ''      '' @ [CHR 0x27] @ key @ [CHR 0x27] @ '': '' @ key
                              @ '',\<newline>'') (map fst es))"
proof (induction es)
  case Nil
  then show ?case by (simp add: toJsonLoop_def)
next
  case (Cons e es)
  obtain key "value" where e: "e = (key, value)" by (cases e)
  from Cons.prems e have "typeof value \<noteq> TObject \<and> \<not> Array_isArray value"
    using scalar_type_value [of "value" key] by simp
  then have "toJsonLoop [e] [] =
      ''      '' @ [CHR 0x27] @ key @ [CHR 0x27] @ '': '' @ key @ '',\<newline>''"
    by (simp add: toJsonLoop_def e quoted_def)
  moreover have "toJsonLoop (e # es) [] = toJsonLoop [e] [] @ toJsonLoop es []"
    by (rule toJsonLoop_Cons)
  ultimately show ?case
    using Cons e by simp
qed

subsection \<open>The collector, entry by entry\<close>

lemma nestedLoop_target:
  "nestedLoop ((key, value) # rest) acc =
     (case nestedTarget key value of
        None \<Rightarrow> nestedLoop rest acc
      | Some (n, item) \<Rightarrow>
          (case generateNestedClasses item n of
             Inl e \<Rightarrow> Inl e
           | Inr nested \<Rightarrow>
               (case generateClassContent item n of
                  Inl e \<Rightarrow> Inl e
                | Inr content \<Rightarrow> nestedLoop rest (acc @ nested @ classBlock n content))))"
  by (simp add: nestedTarget_def classBlock_def Let_def
      split: sum.splits)

lemma specsLoop_target:
  "specsLoop ((key, value) # rest) d specs =
     (case nestedTarget key value of
        None \<Rightarrow> specsLoop rest d specs
      | Some (n, item) \<Rightarrow>
          (case nestedClassSpecs item (Suc d) of
             Inl e \<Rightarrow> Inl e
           | Inr nested \<Rightarrow>
               (case Object_entries item of
                  Inl e \<Rightarrow> Inl e
                | Inr es \<Rightarrow>
                    specsLoop rest d
                      (specs @ nested @ [\<lparr>specName = n, specFields = es, specLevel = Suc d\<rparr>]))))"
  by (simp add: nestedTarget_def split: sum.splits)

lemma nestedLoop_acc:
  "nestedLoop es acc = (case nestedLoop es [] of Inl e \<Rightarrow> Inl e | Inr t \<Rightarrow> Inr (acc @ t))"
proof (induction es arbitrary: acc)
  case Nil
  then show ?case by simp
next
  case (Cons e es)
  obtain key "value" where e: "e = (key, value)" by (cases e)
  show ?case
  proof (cases "nestedTarget key value")
    case None
    then show ?thesis
      using Cons.IH [of acc] by (simp only: e nestedLoop_target option.case)
  next
    case (Some p)
    obtain n item where p: "p = (n, item)" by (cases p)
    show ?thesis
    proof (cases "generateNestedClasses item n")
      case (Inl err)
      then show ?thesis by (simp only: e nestedLoop_target Some p option.case prod.case sum.case)
    next
      case nested: (Inr nested)
      show ?thesis
      proof (cases "generateClassContent item n")
        case (Inl err)
        then show ?thesis
          by (simp only: e nestedLoop_target Some p nested option.case prod.case sum.case)
      next
        case (Inr content)
        have "nestedLoop (e # es) acc = nestedLoop es (acc @ nested @ classBlock n content)"
          by (simp only: e nestedLoop_target Some p nested Inr option.case prod.case sum.case)
        moreover have "nestedLoop (e # es) [] = nestedLoop es (nested @ classBlock n content)"
          by (simp only: e nestedLoop_target Some p nested Inr option.case prod.case sum.case
              append_Nil)
        ultimately show ?thesis
          using Cons.IH [of "acc @ nested @ classBlock n content"]
            Cons.IH [of "nested @ classBlock n content"]
          by (simp split: sum.splits)
      qed
    qed
  qed
qed

lemma specsLoop_acc:
  "specsLoop es d acc = (case specsLoop es d [] of Inl e \<Rightarrow> Inl e | Inr t \<Rightarrow> Inr (acc @ t))"
proof (induction es arbitrary: acc)
  case Nil
  then show ?case by simp
next
  case (Cons e es)
  obtain key "value" where e: "e = (key, value)" by (cases e)
  show ?case
  proof (cases "nestedTarget key value")
    case None
    then show ?thesis
      using Cons.IH [of acc] by (simp only: e specsLoop_target option.case)
  next
    case (Some p)
    obtain n item where p: "p = (n, item)" by (cases p)
    show ?thesis
    proof (cases "nestedClassSpecs item (Suc d)")
      case (Inl err)
      then show ?thesis by (simp only: e specsLoop_target Some p option.case prod.case sum.case)
    next
      case nested: (Inr nested)
      show ?thesis
      proof (cases "Object_entries item")
        case (Inl err)
        then show ?thesis
          by (simp only: e specsLoop_target Some p nested option.case prod.case sum.case)
      next
        case (Inr fs)
        let ?c = "\<lparr>specName = n, specFields = fs, specLevel = Suc d\<rparr>"
        have "specsLoop (e # es) d acc = specsLoop es d (acc @ nested @ [?c])"
          by (simp only: e specsLoop_target Some p nested Inr option.case prod.case sum.case)
        moreover have "specsLoop (e # es) d [] = specsLoop es d (nested @ [?c])"
          by (simp only: e specsLoop_target Some p nested Inr option.case prod.case sum.case
              append_Nil)
        ultimately show ?thesis
          using Cons.IH [of "acc @ nested @ [?c]"] Cons.IH [of "nested @ [?c]"]
          by (simp split: sum.splits)
      qed
    qed
  qed
qed

lemma nestedLoop_Cons:
  "nestedLoop ((key, value) # rest) [] =
     (case entryText key value of
        Inl e \<Rightarrow> Inl e
      | Inr t \<Rightarrow> (case nestedLoop rest [] of Inl e \<Rightarrow> Inl e | Inr r \<Rightarrow> Inr (t @ r)))"
proof (cases "nestedTarget key value")
  case None
  then show ?thesis
    by (simp add: nestedLoop_target entryText_def del: nestedLoop.simps split: sum.splits)
next
  case (Some p)
  obtain n item where p: "p = (n, item)" by (cases p)
  show ?thesis
  proof (cases "entryText key value")
    case (Inl err)
    with Some p show ?thesis
      by (simp add: nestedLoop_target entryText_def
          del: nestedLoop.simps split: sum.splits)
  next
    case (Inr t)
    with Some p obtain nested content where
      r: "generateNestedClasses item n = Inr nested" "generateClassContent item n = Inr content"
        "t = nested @ classBlock n content"
      by (auto simp: entryText_def split: sum.splits)
    have "nestedLoop ((key, value) # rest) [] = nestedLoop rest t"
      by (simp only: nestedLoop_target Some p r option.case prod.case sum.case append_Nil)
    then show ?thesis
      using nestedLoop_acc [of rest t] Inr by simp
  qed
qed

lemma specsLoop_Cons:
  "specsLoop ((key, value) # rest) d [] =
     (case entrySpecs key value d of
        Inl e \<Rightarrow> Inl e
      | Inr t \<Rightarrow> (case specsLoop rest d [] of Inl e \<Rightarrow> Inl e | Inr r \<Rightarrow> Inr (t @ r)))"
proof (cases "nestedTarget key value")
  case None
  then show ?thesis
    by (simp add: specsLoop_target entrySpecs_def del: specsLoop.simps split: sum.splits)
next
  case (Some p)
  obtain n item where p: "p = (n, item)" by (cases p)
  show ?thesis
  proof (cases "entrySpecs key value d")
    case (Inl err)
    with Some p show ?thesis
      by (simp add: specsLoop_target entrySpecs_def
          del: specsLoop.simps split: sum.splits)
  next
    case (Inr t)
    with Some p obtain nested fs where
      r: "nestedClassSpecs item (Suc d) = Inr nested" "Object_entries item = Inr fs"
        "t = nested @ [\<lparr>specName = n, specFields = fs, specLevel = Suc d\<rparr>]"
      by (auto simp: entrySpecs_def split: sum.splits)
    have "specsLoop ((key, value) # rest) d [] = specsLoop rest d t"
      by (simp only: specsLoop_target Some p r option.case prod.case sum.case append_Nil)
    then show ?thesis
      using specsLoop_acc [of rest d t] Inr by simp
  qed
qed

lemma weight_member:
  "(key, value) \<in> set es \<Longrightarrow> typeof value = TObject \<Longrightarrow> jsize value < descent_weight es"
  by (induction es) auto

lemma nestedTarget_smaller:
  assumes "nestedTarget key value = Some (n, item)"
  shows "typeof value = TObject \<and> jsize item \<le> jsize value"
proof (cases "typeof value = TObject \<and> value \<noteq> JNull \<and> \<not> Array_isArray value")
  case True
  with assms show ?thesis by (simp add: nestedTarget_def)
next
  case False
  with assms have a: "Array_isArray value" "0 < length (elements value)"
      "item = elements value ! 0"
    by (auto simp: nestedTarget_def split: if_splits)
  then show ?thesis
    using jsize_first_element [of "value"] by simp
qed

lemma entry_target_smaller:
  assumes "Object_entries obj = Inr es" and "(key, value) \<in> set es"
    and "nestedTarget key value = Some (n, item)"
  shows "jsize item < jsize obj"
  using nestedTarget_smaller [OF assms(3)] weight_member [OF assms(2)]
    descent_weight_entries [OF assms(1)]
  by simp

text \<open>Induction along the walk of the collector.\<close>

lemma collector_induct [case_names entries]:
  assumes step: "\<And>obj. (\<And>es key value n item.
             Object_entries obj = Inr es \<Longrightarrow> (key, value) \<in> set es \<Longrightarrow>
             nestedTarget key value = Some (n, item) \<Longrightarrow> P item) \<Longrightarrow> P obj"
  shows "P obj"
proof (induction obj rule: measure_induct_rule [of jsize])
  case (less obj)
  show ?case
  proof (rule step)
    fix es key "value" n item
    assume "Object_entries obj = Inr es" "(key, value) \<in> set es"
      "nestedTarget key value = Some (n, item)"
    then have "jsize item < jsize obj" by (rule entry_target_smaller)
    then show "P item" by (rule less.IH)
  qed
qed

lemma renderClasses_append [simp]:
  "renderClasses (a @ b) = renderClasses a @ renderClasses b"
  by (simp add: renderClasses_def)

lemma renderClasses_Nil [simp]: "renderClasses [] = []"
  by (simp add: renderClasses_def)

lemma renderClasses_single:
  "renderClasses [\<lparr>specName = n, specFields = fs, specLevel = d\<rparr>]
     = classBlock n (classContentText fs n)"
  by (simp add: renderClasses_def classText_def)

lemma entryText_specs:
  assumes "\<And>n item. nestedTarget key value = Some (n, item) \<Longrightarrow>
             generateNestedClasses item n = renderResult (nestedClassSpecs item (Suc d))"
  shows "entryText key value = renderResult (entrySpecs key value d)"
proof (cases "nestedTarget key value")
  case None
  then show ?thesis by (simp add: entryText_def entrySpecs_def)
next
  case (Some p)
  obtain n item where p: "p = (n, item)" by (cases p)
  from assms Some p have
    g: "generateNestedClasses item n = renderResult (nestedClassSpecs item (Suc d))"
    by simp
  show ?thesis
    unfolding entryText_def entrySpecs_def Some p option.case prod.case g
      generateClassContent_text
    by (cases "nestedClassSpecs item (Suc d)"; cases "Object_entries item")
      (simp_all add: renderClasses_single)
qed

lemma loop_text_specs:
  assumes "\<And>key value n item. (key, value) \<in> set es \<Longrightarrow>
             nestedTarget key value = Some (n, item) \<Longrightarrow>
             generateNestedClasses item n = renderResult (nestedClassSpecs item (Suc d))"
  shows "nestedLoop es [] = renderResult (specsLoop es d [])"
  using assms
proof (induction es)
  case Nil
  then show ?case by simp
next
  case (Cons e es)
  obtain key "value" where e: "e = (key, value)" by (cases e)
  have one: "entryText key value = renderResult (entrySpecs key value d)"
  proof (rule entryText_specs)
    fix n item
    assume "nestedTarget key value = Some (n, item)"
    then show "generateNestedClasses item n = renderResult (nestedClassSpecs item (Suc d))"
      using Cons.prems [of key "value" n item] by (simp add: e)
  qed
  have rest: "nestedLoop es [] = renderResult (specsLoop es d [])"
  proof (rule Cons.IH)
    fix k v n item
    assume "(k, v) \<in> set es" "nestedTarget k v = Some (n, item)"
    then show "generateNestedClasses item n = renderResult (nestedClassSpecs item (Suc d))"
      using Cons.prems [of k v n item] by simp
  qed
  show ?case
    unfolding e nestedLoop_Cons specsLoop_Cons one rest
    by (cases "entrySpecs key value d"; cases "specsLoop es d []") simp_all
qed

lemma collector_text:
  "generateNestedClasses obj cn = renderResult (nestedClassSpecs obj d)"
proof (induction obj arbitrary: cn d rule: collector_induct)
  case (entries obj)
  show ?case
  proof (cases "Object_entries obj")
    case (Inl err)
    then show ?thesis by (simp add: generateNestedClasses.simps nestedClassSpecs.simps)
  next
    case (Inr es)
    have "nestedLoop es [] = renderResult (specsLoop es d [])"
      by (rule loop_text_specs) (rule entries [OF Inr])
    with Inr show ?thesis by (simp add: generateNestedClasses.simps nestedClassSpecs.simps)
  qed
qed

lemma generateDartClass_text:
  "generateDartClass json cn = renderResult (emittedClasses json cn)"
  unfolding generateDartClass_def emittedClasses_def generateClassContent_text
    collector_text [of json cn 0]
  by (cases "nestedClassSpecs json 0"; cases "Object_entries json")
    (simp_all add: renderClasses_single classBlock_def)

subsection \<open>Classes are defined before they are used\<close>

lemma fieldRefs_Nil [simp]: "fieldRefs [] = []"
  by (simp add: fieldRefs_def)

lemma fieldRefs_Cons [simp]:
  "fieldRefs ((key, value) # es) = namedClasses (fieldTypeExpr value key) @ fieldRefs es"
  by (simp add: fieldRefs_def)

lemma no_object_no_class: "typeof v \<noteq> TObject \<Longrightarrow> namedClasses (fieldTypeExpr v key) = []"
  by (cases v) simp_all

lemma namedClasses_no_target:
  assumes "nestedTarget key value = None"
  shows "namedClasses (fieldTypeExpr value key) = []"
proof (cases "value")
  case (JArr xs)
  show ?thesis
  proof (cases xs)
    case Nil
    with JArr show ?thesis by simp
  next
    case (Cons x xs')
    with JArr assms have "typeof x \<noteq> TObject"
      by (simp add: nestedTarget_def split: if_splits)
    with JArr Cons show ?thesis by (simp add: no_object_no_class)
  qed
next
  case (JObj kvs)
  with assms show ?thesis by (simp add: nestedTarget_def)
qed simp_all

lemma namedClasses_target:
  assumes "nestedTarget key value = Some (n, item)" and "item \<noteq> JNull"
  shows "namedClasses (fieldTypeExpr value key) = [n]"
proof (cases "value")
  case (JArr xs)
  show ?thesis
  proof (cases xs)
    case Nil
    with JArr assms show ?thesis by (simp add: nestedTarget_def)
  next
    case (Cons x xs')
    with JArr assms show ?thesis
      by (auto simp: nestedTarget_def split: if_splits)
  qed
next
  case (JObj kvs)
  with assms show ?thesis by (auto simp: nestedTarget_def)
qed (use assms in \<open>simp_all add: nestedTarget_def\<close>)

lemma definedBeforeUse_append:
  "definedBeforeUse seen (a @ b)
     = (definedBeforeUse seen a \<and> definedBeforeUse (seen @ map specName a) b)"
  by (induction a arbitrary: seen) simp_all

lemma definedBeforeUse_mono:
  "definedBeforeUse seen cs \<Longrightarrow> set seen \<subseteq> set seen' \<Longrightarrow> definedBeforeUse seen' cs"
proof (induction cs arbitrary: seen seen')
  case Nil
  then show ?case by simp
next
  case (Cons c cs)
  from Cons.prems have "definedBeforeUse (seen @ [specName c]) cs" by simp
  moreover from Cons.prems have "set (seen @ [specName c]) \<subseteq> set (seen' @ [specName c])"
    by auto
  ultimately have "definedBeforeUse (seen' @ [specName c]) cs" by (rule Cons.IH)
  with Cons.prems show ?case by (auto simp: list_all_iff)
qed

lemma definedBeforeUse_concat:
  assumes "definedBeforeUse [] a" and "definedBeforeUse [] b"
  shows "definedBeforeUse [] (a @ b)"
  using assms definedBeforeUse_mono [of "[]" b "map specName a"]
  by (simp add: definedBeforeUse_append)

lemma entrySpecs_ordered:
  assumes sub: "\<And>n item d' specs fs. nestedTarget key value = Some (n, item) \<Longrightarrow>
             nestedClassSpecs item d' = Inr specs \<Longrightarrow> Object_entries item = Inr fs \<Longrightarrow>
             definedBeforeUse [] specs \<and> set (fieldRefs fs) \<subseteq> specName ` set specs"
    and t: "entrySpecs key value d = Inr t"
  shows "definedBeforeUse [] t
         \<and> set (namedClasses (fieldTypeExpr value key)) \<subseteq> specName ` set t"
proof (cases "nestedTarget key value")
  case None
  with t show ?thesis by (simp add: entrySpecs_def namedClasses_no_target)
next
  case (Some p)
  obtain n item where p: "p = (n, item)" by (cases p)
  from t Some p obtain nested fs where
    r: "nestedClassSpecs item (Suc d) = Inr nested" "Object_entries item = Inr fs"
      "t = nested @ [\<lparr>specName = n, specFields = fs, specLevel = Suc d\<rparr>]"
    by (auto simp: entrySpecs_def split: sum.splits)
  from sub [of n item "Suc d" nested fs] Some p r
  have ih: "definedBeforeUse [] nested" "set (fieldRefs fs) \<subseteq> specName ` set nested"
    by simp_all
  from r(2) have "item \<noteq> JNull" by auto
  with Some p have refs: "namedClasses (fieldTypeExpr value key) = [n]"
    by (simp add: namedClasses_target)
  from ih have "definedBeforeUse [] t"
    by (auto simp: r(3) definedBeforeUse_append list_all_iff)
  with refs show ?thesis by (simp add: r(3))
qed

lemma specsLoop_ordered:
  assumes "\<And>key value n item d' specs fs. (key, value) \<in> set es \<Longrightarrow>
             nestedTarget key value = Some (n, item) \<Longrightarrow>
             nestedClassSpecs item d' = Inr specs \<Longrightarrow> Object_entries item = Inr fs \<Longrightarrow>
             definedBeforeUse [] specs \<and> set (fieldRefs fs) \<subseteq> specName ` set specs"
    and "specsLoop es d [] = Inr out"
  shows "definedBeforeUse [] out \<and> set (fieldRefs es) \<subseteq> specName ` set out"
  using assms
proof (induction es arbitrary: out)
  case Nil
  then show ?case by simp
next
  case (Cons e es)
  obtain key "value" where e: "e = (key, value)" by (cases e)
  from Cons.prems(2) obtain t r where
    tr: "entrySpecs key value d = Inr t" "specsLoop es d [] = Inr r" "out = t @ r"
    by (auto simp: e specsLoop_Cons simp del: specsLoop.simps split: sum.splits)
  have one: "definedBeforeUse [] t
             \<and> set (namedClasses (fieldTypeExpr value key)) \<subseteq> specName ` set t"
  proof (rule entrySpecs_ordered [OF _ tr(1)])
    fix n item d' specs fs
    assume "nestedTarget key value = Some (n, item)" "nestedClassSpecs item d' = Inr specs"
      "Object_entries item = Inr fs"
    then show "definedBeforeUse [] specs \<and> set (fieldRefs fs) \<subseteq> specName ` set specs"
      using Cons.prems(1) [of key "value" n item d' specs fs] by (simp add: e)
  qed
  have rest: "definedBeforeUse [] r \<and> set (fieldRefs es) \<subseteq> specName ` set r"
  proof (rule Cons.IH [OF _ tr(2)])
    fix k v n item d' specs fs
    assume "(k, v) \<in> set es" "nestedTarget k v = Some (n, item)"
      "nestedClassSpecs item d' = Inr specs" "Object_entries item = Inr fs"
    then show "definedBeforeUse [] specs \<and> set (fieldRefs fs) \<subseteq> specName ` set specs"
      using Cons.prems(1) [of k v n item d' specs fs] by simp
  qed
  from one rest have "definedBeforeUse [] (t @ r)"
    by (simp add: definedBeforeUse_concat)
  with one rest show ?case
    by (auto simp: tr(3) e)
qed

lemma collector_ordered:
  "nestedClassSpecs obj d = Inr specs \<Longrightarrow> Object_entries obj = Inr fs \<Longrightarrow>
     definedBeforeUse [] specs \<and> set (fieldRefs fs) \<subseteq> specName ` set specs"
proof (induction obj arbitrary: d specs fs rule: collector_induct)
  case (entries obj)
  from entries.prems have loop: "specsLoop fs d [] = Inr specs"
    by (simp add: nestedClassSpecs.simps)
  show ?case
  proof (rule specsLoop_ordered [OF _ loop])
    fix key "value" n item d' specs' fs'
    assume "(key, value) \<in> set fs" "nestedTarget key value = Some (n, item)"
      "nestedClassSpecs item d' = Inr specs'" "Object_entries item = Inr fs'"
    then show "definedBeforeUse [] specs' \<and> set (fieldRefs fs') \<subseteq> specName ` set specs'"
      using entries.IH [OF entries.prems(2)] by blast
  qed
qed

subsection \<open>Where a class stands in the text\<close>

lemma nestedLoop_member:
  assumes "nestedLoop es [] = Inr out" and "(key, value) \<in> set es"
  shows "\<exists>pre t post. entryText key value = Inr t \<and> out = pre @ t @ post"
  using assms
proof (induction es arbitrary: out)
  case Nil
  then show ?case by simp
next
  case (Cons e es)
  obtain k v where e: "e = (k, v)" by (cases e)
  from Cons.prems(1) obtain t r where
    tr: "entryText k v = Inr t" "nestedLoop es [] = Inr r" "out = t @ r"
    by (auto simp: e nestedLoop_Cons simp del: nestedLoop.simps split: sum.splits)
  show ?case
  proof (cases "(key, value) = e")
    case True
    with e tr have "entryText key value = Inr t \<and> out = [] @ t @ r" by simp
    then show ?thesis by blast
  next
    case False
    with Cons.prems(2) have "(key, value) \<in> set es" by simp
    from Cons.IH [OF tr(2) this] obtain pre t' post where
      "entryText key value = Inr t'" "r = pre @ t' @ post" by blast
    then have "entryText key value = Inr t' \<and> out = (t @ pre) @ t' @ post"
      by (simp add: tr(3))
    then show ?thesis by blast
  qed
qed

lemma nestedLoop_first_leaf:
  assumes sub: "\<And>key value n item desc. (key, value) \<in> set es \<Longrightarrow>
             nestedTarget key value = Some (n, item) \<Longrightarrow>
             generateNestedClasses item n = Inr desc \<Longrightarrow> desc \<noteq> [] \<Longrightarrow>
             \<exists>n' item' c' post'. desc = classBlock n' c' @ post'
                \<and> generateNestedClasses item' n' = Inr []
                \<and> generateClassContent item' n' = Inr c'"
    and "nestedLoop es [] = Inr out" and "out \<noteq> []"
  shows "\<exists>n' item' c' post'. out = classBlock n' c' @ post'
           \<and> generateNestedClasses item' n' = Inr []
           \<and> generateClassContent item' n' = Inr c'"
  using assms
proof (induction es arbitrary: out)
  case Nil
  then show ?case by simp
next
  case (Cons e es)
  obtain k v where e: "e = (k, v)" by (cases e)
  from Cons.prems(2) obtain t r where
    tr: "entryText k v = Inr t" "nestedLoop es [] = Inr r" "out = t @ r"
    by (auto simp: e nestedLoop_Cons simp del: nestedLoop.simps split: sum.splits)
  show ?case
  proof (cases "t = []")
    case True
    with tr Cons.prems(3) have "r \<noteq> []" by simp
    have "\<exists>n' item' c' post'. r = classBlock n' c' @ post'
           \<and> generateNestedClasses item' n' = Inr []
           \<and> generateClassContent item' n' = Inr c'"
    proof (rule Cons.IH [OF _ tr(2) \<open>r \<noteq> []\<close>])
      fix key "value" n item desc
      assume "(key, value) \<in> set es" "nestedTarget key value = Some (n, item)"
        "generateNestedClasses item n = Inr desc" "desc \<noteq> []"
      then show "\<exists>n' item' c' post'. desc = classBlock n' c' @ post'
                \<and> generateNestedClasses item' n' = Inr []
                \<and> generateClassContent item' n' = Inr c'"
        using Cons.prems(1) [of key "value" n item desc] by simp
    qed
    with True tr(3) show ?thesis by simp
  next
    case False
    with tr(1) obtain n item desc c where
      r: "nestedTarget k v = Some (n, item)" "generateNestedClasses item n = Inr desc"
        "generateClassContent item n = Inr c" "t = desc @ classBlock n c"
      by (auto simp: entryText_def split: option.splits sum.splits)
    show ?thesis
    proof (cases "desc = []")
      case True
      with r tr(3) have "out = classBlock n c @ r \<and> generateNestedClasses item n = Inr []
          \<and> generateClassContent item n = Inr c"
        by simp
      then show ?thesis by blast
    next
      case False
      from Cons.prems(1) [of k v n item desc] r False e
      obtain n' item' c' post' where
        "desc = classBlock n' c' @ post'" "generateNestedClasses item' n' = Inr []"
        "generateClassContent item' n' = Inr c'"
        by auto
      then have "out = classBlock n' c' @ (post' @ classBlock n c @ r)
          \<and> generateNestedClasses item' n' = Inr []
          \<and> generateClassContent item' n' = Inr c'"
        by (simp add: tr(3) r(4))
      then show ?thesis by blast
    qed
  qed
qed

lemma collector_first_leaf:
  "generateNestedClasses obj cn = Inr nested \<Longrightarrow> nested \<noteq> [] \<Longrightarrow>
     \<exists>n' item' c' post'. nested = classBlock n' c' @ post'
        \<and> generateNestedClasses item' n' = Inr []
        \<and> generateClassContent item' n' = Inr c'"
proof (induction obj arbitrary: cn nested rule: collector_induct)
  case (entries obj)
  from entries.prems(1) obtain es where
    es: "Object_entries obj = Inr es" "nestedLoop es [] = Inr nested"
    by (auto simp: generateNestedClasses.simps split: sum.splits)
  show ?case
  proof (rule nestedLoop_first_leaf [OF _ es(2) entries.prems(2)])
    fix key "value" n item desc
    assume "(key, value) \<in> set es" "nestedTarget key value = Some (n, item)"
      "generateNestedClasses item n = Inr desc" "desc \<noteq> []"
    then show "\<exists>n' item' c' post'. desc = classBlock n' c' @ post'
        \<and> generateNestedClasses item' n' = Inr []
        \<and> generateClassContent item' n' = Inr c'"
      using entries.IH [OF es(1)] by blast
  qed
qed

subsection \<open>Depth of the emitted classes\<close>

lemma entrySpecs_cases:
  assumes "entrySpecs key value d = Inr t"
  shows "(nestedTarget key value = None \<and> t = [])
       \<or> (\<exists>n item desc fs. nestedTarget key value = Some (n, item)
             \<and> nestedClassSpecs item (Suc d) = Inr desc \<and> Object_entries item = Inr fs
             \<and> t = desc @ [\<lparr>specName = n, specFields = fs, specLevel = Suc d\<rparr>])"
  using assms
  by (auto simp: entrySpecs_def split: option.splits sum.splits)

lemma specsLoop_split:
  assumes "specsLoop ((key, value) # es) d [] = Inr out"
  shows "\<exists>t r. entrySpecs key value d = Inr t \<and> specsLoop es d [] = Inr r \<and> out = t @ r"
  using assms
  by (auto simp: specsLoop_Cons simp del: specsLoop.simps split: sum.splits)

lemma specsLoop_has_top_level:
  "specsLoop es d [] = Inr out \<Longrightarrow> out \<noteq> [] \<Longrightarrow> Suc d \<in> set (map specLevel out)"
proof (induction es arbitrary: out)
  case Nil
  then show ?case by simp
next
  case (Cons e es)
  obtain key "value" where e: "e = (key, value)" by (cases e)
  from specsLoop_split [OF Cons.prems(1) [unfolded e]] obtain t r where
    tr: "entrySpecs key value d = Inr t" "specsLoop es d [] = Inr r" "out = t @ r"
    by blast
  show ?case
  proof (cases "t = []")
    case True
    with tr Cons.prems(2) Cons.IH [of r] show ?thesis by simp
  next
    case False
    with entrySpecs_cases [OF tr(1)] show ?thesis by (auto simp: tr(3))
  qed
qed

lemma specsLoop_empty_no_target:
  "specsLoop es d [] = Inr [] \<Longrightarrow> list_all (\<lambda>(key, value). nestedTarget key value = None) es"
proof (induction es)
  case Nil
  then show ?case by simp
next
  case (Cons e es)
  obtain key "value" where e: "e = (key, value)" by (cases e)
  from specsLoop_split [OF Cons.prems [unfolded e]] obtain t r where
    tr: "entrySpecs key value d = Inr t" "specsLoop es d [] = Inr r" "[] = t @ r"
    by blast
  then have "t = []" "r = []" by simp_all
  with entrySpecs_cases [OF tr(1)] tr(2) Cons.IH show ?case by (auto simp: e)
qed

lemma specsLoop_levels:
  assumes "\<And>key value n item d' specs. (key, value) \<in> set es \<Longrightarrow>
             nestedTarget key value = Some (n, item) \<Longrightarrow>
             nestedClassSpecs item d' = Inr specs \<Longrightarrow> list_all (\<lambda>c. Suc d' \<le> specLevel c) specs"
    and "specsLoop es d [] = Inr out"
  shows "list_all (\<lambda>c. Suc d \<le> specLevel c) out"
  using assms
proof (induction es arbitrary: out)
  case Nil
  then show ?case by simp
next
  case (Cons e es)
  obtain key "value" where e: "e = (key, value)" by (cases e)
  from specsLoop_split [OF Cons.prems(2) [unfolded e]] obtain t r where
    tr: "entrySpecs key value d = Inr t" "specsLoop es d [] = Inr r" "out = t @ r"
    by blast
  have rest: "list_all (\<lambda>c. Suc d \<le> specLevel c) r"
  proof (rule Cons.IH [OF _ tr(2)])
    fix k v n item d' specs
    assume "(k, v) \<in> set es" "nestedTarget k v = Some (n, item)"
      "nestedClassSpecs item d' = Inr specs"
    then show "list_all (\<lambda>c. Suc d' \<le> specLevel c) specs"
      using Cons.prems(1) [of k v n item d' specs] by simp
  qed
  have one: "list_all (\<lambda>c. Suc d \<le> specLevel c) t"
  proof -
    from entrySpecs_cases [OF tr(1)] show ?thesis
    proof
      assume "nestedTarget key value = None \<and> t = []"
      then show ?thesis by simp
    next
      assume "\<exists>n item desc fs. nestedTarget key value = Some (n, item)
             \<and> nestedClassSpecs item (Suc d) = Inr desc \<and> Object_entries item = Inr fs
             \<and> t = desc @ [\<lparr>specName = n, specFields = fs, specLevel = Suc d\<rparr>]"
      then obtain n item desc fs where
        r: "nestedTarget key value = Some (n, item)" "nestedClassSpecs item (Suc d) = Inr desc"
          "t = desc @ [\<lparr>specName = n, specFields = fs, specLevel = Suc d\<rparr>]"
        by blast
      from Cons.prems(1) [of key "value" n item "Suc d" desc] r e
      have "list_all (\<lambda>c. Suc (Suc d) \<le> specLevel c) desc" by simp
      then have "list_all (\<lambda>c. Suc d \<le> specLevel c) desc"
        by (auto simp: list_all_iff)
      then show ?thesis by (simp add: r(3))
    qed
  qed
  from one rest show ?case by (simp add: tr(3))
qed

lemma collector_levels:
  "nestedClassSpecs obj d = Inr specs \<Longrightarrow> list_all (\<lambda>c. Suc d \<le> specLevel c) specs"
proof (induction obj arbitrary: d specs rule: collector_induct)
  case (entries obj)
  from entries.prems obtain es where
    es: "Object_entries obj = Inr es" "specsLoop es d [] = Inr specs"
    by (auto simp: nestedClassSpecs.simps split: sum.splits)
  show ?case
  proof (rule specsLoop_levels [OF _ es(2)])
    fix key "value" n item d' specs'
    assume "(key, value) \<in> set es" "nestedTarget key value = Some (n, item)"
      "nestedClassSpecs item d' = Inr specs'"
    then show "list_all (\<lambda>c. Suc d' \<le> specLevel c) specs'"
      using entries.IH [OF es(1)] by blast
  qed
qed

lemma specsLoop_first_leaf:
  assumes sub: "\<And>key value n item d' specs. (key, value) \<in> set es \<Longrightarrow>
             nestedTarget key value = Some (n, item) \<Longrightarrow>
             nestedClassSpecs item d' = Inr specs \<Longrightarrow> specs \<noteq> [] \<Longrightarrow> leafClass (hd specs)"
    and "specsLoop es d [] = Inr out" and "out \<noteq> []"
  shows "leafClass (hd out)"
  using assms
proof (induction es arbitrary: out)
  case Nil
  then show ?case by simp
next
  case (Cons e es)
  obtain key "value" where e: "e = (key, value)" by (cases e)
  from specsLoop_split [OF Cons.prems(2) [unfolded e]] obtain t r where
    tr: "entrySpecs key value d = Inr t" "specsLoop es d [] = Inr r" "out = t @ r"
    by blast
  show ?case
  proof (cases "t = []")
    case True
    with tr Cons.prems(3) have "r \<noteq> []" by simp
    have "leafClass (hd r)"
    proof (rule Cons.IH [OF _ tr(2) \<open>r \<noteq> []\<close>])
      fix k v n item d' specs
      assume "(k, v) \<in> set es" "nestedTarget k v = Some (n, item)"
        "nestedClassSpecs item d' = Inr specs" "specs \<noteq> []"
      then show "leafClass (hd specs)"
        using Cons.prems(1) [of k v n item d' specs] by simp
    qed
    with True show ?thesis by (simp add: tr(3))
  next
    case False
    with entrySpecs_cases [OF tr(1)] obtain n item desc fs where
      r: "nestedTarget key value = Some (n, item)" "nestedClassSpecs item (Suc d) = Inr desc"
        "Object_entries item = Inr fs"
        "t = desc @ [\<lparr>specName = n, specFields = fs, specLevel = Suc d\<rparr>]"
      by auto
    show ?thesis
    proof (cases "desc = []")
      case True
      with r(2,3) have "specsLoop fs (Suc d) [] = Inr []"
        by (simp add: nestedClassSpecs.simps)
      then have "list_all (\<lambda>(key, value). nestedTarget key value = None) fs"
        by (rule specsLoop_empty_no_target)
      with True show ?thesis by (simp add: tr(3) r(4) leafClass_def)
    next
      case False
      from Cons.prems(1) [of key "value" n item "Suc d" desc] r False e
      have "leafClass (hd desc)" by simp
      with False show ?thesis by (simp add: tr(3) r(4))
    qed
  qed
qed

lemma collector_first_leaf_class:
  "nestedClassSpecs obj d = Inr specs \<Longrightarrow> specs \<noteq> [] \<Longrightarrow> leafClass (hd specs)"
proof (induction obj arbitrary: d specs rule: collector_induct)
  case (entries obj)
  from entries.prems(1) obtain es where
    es: "Object_entries obj = Inr es" "specsLoop es d [] = Inr specs"
    by (auto simp: nestedClassSpecs.simps split: sum.splits)
  show ?case
  proof (rule specsLoop_first_leaf [OF _ es(2) entries.prems(2)])
    fix key "value" n item d' specs'
    assume "(key, value) \<in> set es" "nestedTarget key value = Some (n, item)"
      "nestedClassSpecs item d' = Inr specs'" "specs' \<noteq> []"
    then show "leafClass (hd specs')"
      using entries.IH [OF es(1)] by blast
  qed
qed

lemma specsLoop_chain:
  assumes sub: "\<And>key value n item d' specs. (key, value) \<in> set es \<Longrightarrow>
             nestedTarget key value = Some (n, item) \<Longrightarrow>
             nestedClassSpecs item d' = Inr specs \<Longrightarrow> distinct (map specLevel specs) \<Longrightarrow>
             deepestFirst specs"
    and "specsLoop es d [] = Inr out" and "distinct (map specLevel out)"
  shows "deepestFirst out"
  using assms
proof (induction es arbitrary: out)
  case Nil
  then show ?case by simp
next
  case (Cons e es)
  obtain key "value" where e: "e = (key, value)" by (cases e)
  from specsLoop_split [OF Cons.prems(2) [unfolded e]] obtain t r where
    tr: "entrySpecs key value d = Inr t" "specsLoop es d [] = Inr r" "out = t @ r"
    by blast
  show ?case
  proof (cases "t = []")
    case True
    have "deepestFirst r"
    proof (rule Cons.IH [OF _ tr(2)])
      fix k v n item d' specs
      assume "(k, v) \<in> set es" "nestedTarget k v = Some (n, item)"
        "nestedClassSpecs item d' = Inr specs" "distinct (map specLevel specs)"
      then show "deepestFirst specs"
        using Cons.prems(1) [of k v n item d' specs] by simp
    next
      from Cons.prems(3) True show "distinct (map specLevel r)" by (simp add: tr(3))
    qed
    with True show ?thesis by (simp add: tr(3))
  next
    case False
    with entrySpecs_cases [OF tr(1)] obtain n item desc fs where
      r: "nestedTarget key value = Some (n, item)" "nestedClassSpecs item (Suc d) = Inr desc"
        "t = desc @ [\<lparr>specName = n, specFields = fs, specLevel = Suc d\<rparr>]"
      by auto
    have "r = []"
    proof (rule ccontr)
      assume "r \<noteq> []"
      with tr(2) have "Suc d \<in> set (map specLevel r)" by (rule specsLoop_has_top_level)
      moreover have "Suc d \<in> set (map specLevel t)" by (simp add: r(3))
      ultimately show False using Cons.prems(3) by (auto simp: tr(3))
    qed
    then have out: "out = desc @ [\<lparr>specName = n, specFields = fs, specLevel = Suc d\<rparr>]"
      by (simp add: tr(3) r(3))
    show ?thesis
    proof (cases desc)
      case Nil
      with out show ?thesis by simp
    next
      case (Cons c cs)
      from Cons.prems(3) out have "distinct (map specLevel desc)" by simp
      with Cons.prems(1) [of key "value" n item "Suc d" desc] r e
      have "deepestFirst desc" by simp
      moreover from collector_levels [OF r(2)] Cons have "Suc (Suc d) \<le> specLevel c" by simp
      ultimately show ?thesis using Cons by (simp add: out)
    qed
  qed
qed

lemma collector_chain:
  "nestedClassSpecs obj d = Inr specs \<Longrightarrow> distinct (map specLevel specs) \<Longrightarrow>
     deepestFirst specs"
proof (induction obj arbitrary: d specs rule: collector_induct)
  case (entries obj)
  from entries.prems(1) obtain es where
    es: "Object_entries obj = Inr es" "specsLoop es d [] = Inr specs"
    by (auto simp: nestedClassSpecs.simps split: sum.splits)
  show ?case
  proof (rule specsLoop_chain [OF _ es(2) entries.prems(2)])
    fix key "value" n item d' specs'
    assume "(key, value) \<in> set es" "nestedTarget key value = Some (n, item)"
      "nestedClassSpecs item d' = Inr specs'" "distinct (map specLevel specs')"
    then show "deepestFirst specs'"
      using entries.IH [OF es(1)] by blast
  qed
qed

subsection \<open>The claims\<close>

lemmas eval_defs = generateDartClass_def generateClassContent_def fieldsLoop_def
  constructorLoop_def fromJsonLoop_def toJsonLoop_def capitalizeFirst_def toUpperCase_def
  lowerCaseLetters_def upperCaseLetters_def replace_trailing_s_def quoted_def Let_def
  generateNestedClasses.simps

lemmas spec_defs = emittedClasses_def nestedClassSpecs.simps classText_def classBlock_def
  classContentText_def

text \<open>
  C1 (generation never throws once the text has parsed, also on an array whose first element
  is null). The code does throw there: on \<^verbatim>\<open>{"a":[null]}\<close> the collector takes the array
  branch (\<^verbatim>\<open>typeof null\<close> is \<^verbatim>\<open>'object'\<close>) and calls itself on \<^verbatim>\<open>null\<close>, where
  \<^verbatim>\<open>Object.entries\<close> throws a \<^verbatim>\<open>TypeError\<close>; the root \<^verbatim>\<open>null\<close> throws the same
  way. The field-type function guards the same test with \<^verbatim>\<open>firstItem !== null\<close> and
  types the field \<^verbatim>\<open>List<dynamic>\<close>.
\<close>

theorem generation_throws_on_array_of_null:
  "generateNestedClasses (JObj [(''a'', JArr [JNull])]) ''X'' = Inl TypeError
   \<and> generateDartClass (JObj [(''a'', JArr [JNull])]) ''X'' = Inl TypeError
   \<and> generateDartClass JNull ''X'' = Inl TypeError
   \<and> generateFieldType (JArr [JNull]) ''a'' = ''List<dynamic>''"
  by (simp add: eval_defs)

text \<open>
  C2 (the collector emits no class for an array field whose first element is itself an
  array, and does not descend into it). The code does both: on \<^verbatim>\<open>{"a":[[1]]}\<close> the
  collector takes the array branch (\<^verbatim>\<open>typeof [1]\<close> is \<^verbatim>\<open>'object'\<close>), descends into
  the inner array and emits a class \<^verbatim>\<open>A\<close> whose one field is named after the index
  \<^verbatim>\<open>0\<close>.
\<close>

theorem collector_emits_class_for_array_of_arrays:
  "generateNestedClasses (JObj [(''a'', JArr [JArr [JNum (Finite 1)]])]) ''X''
     = Inr (''\<newline>class A {\<newline>'' @
            ''  final int? 0;\<newline>'' @
            ''\<newline>'' @
            ''  A({\<newline>'' @
            ''    this.0,\<newline>'' @
            ''  });\<newline>'' @
            ''\<newline>'' @
            ''  factory A.fromJson(Map<String, dynamic> json) {\<newline>'' @
            ''    return A(\<newline>'' @
            ''      0: json['0'],\<newline>'' @
            ''    );\<newline>'' @
            ''  }\<newline>'' @
            ''\<newline>'' @
            ''  Map<String, dynamic> toJson() {\<newline>'' @
            ''    return {\<newline>'' @
            ''      '0': 0,\<newline>'' @
            ''    };\<newline>'' @
            ''  }\<newline>'' @
            ''}\<newline>'')"
  by (simp add: eval_defs decimal.simps digit_char_def)

text \<open>
  C3 (an array whose first element is an array is typed as the list of that element's type,
  so a list of lists of integers is \<^verbatim>\<open>List<List<int>>\<close>). The code types it as a list of a
  named class: for the key \<^verbatim>\<open>a\<close> and the value \<^verbatim>\<open>[[1,2]]\<close> the field-type function
  takes the named-class branch, since \<^verbatim>\<open>typeof\<close> of an array is \<^verbatim>\<open>'object'\<close>, and
  returns \<^verbatim>\<open>List<A>\<close>.
\<close>

theorem list_of_lists_typed_as_class_list:
  "generateFieldType (JArr [JArr [JNum (Finite 1), JNum (Finite 2)]]) ''a'' = ''List<A>''
   \<and> generateFieldType (JArr [JArr [JNum (Finite 1), JNum (Finite 2)]]) ''a''
       \<noteq> ''List<List<int>>''"
  by (simp add: eval_defs)

text \<open>
  C4, amended. For every output, the output is the text of the emitted classes in order, and
  every class named by a field of an emitted class is the name of at least one class earlier
  in that order. It need not be exactly one: the collector keeps no record of the classes
  it has emitted, every object-typed entry appends a class of its own, and two sibling
  fields whose keys capitalize to the same name give two definitions of that name. The
  names a field refers to are those of the type expression \<^const>\<open>fieldTypeExpr\<close>, whose text
  is the declared type (\<open>generateFieldType_renderType\<close>).
\<close>

theorem referenced_classes_defined_earlier:
  assumes "generateDartClass json cn = Inr out"
  shows "\<exists>specs. emittedClasses json cn = Inr specs
           \<and> out = concat (map classText specs)
           \<and> definedBeforeUse [] specs"
proof -
  from assms obtain specs where
    specs: "emittedClasses json cn = Inr specs" "out = renderClasses specs"
    by (cases "emittedClasses json cn") (simp_all add: generateDartClass_text)
  from specs(1) obtain nested fs where
    r: "nestedClassSpecs json 0 = Inr nested" "Object_entries json = Inr fs"
      "specs = nested @ [\<lparr>specName = cn, specFields = fs, specLevel = 0\<rparr>]"
    by (auto simp: emittedClasses_def split: sum.splits)
  from collector_ordered [OF r(1) r(2)]
  have "definedBeforeUse [] specs"
    by (auto simp: r(3) definedBeforeUse_append list_all_iff)
  with specs show ?thesis
    by (simp add: renderClasses_def)
qed

text \<open>The theorem at an object with a nested object and an array of objects.\<close>

theorem referenced_classes_defined_earlier_witness:
  "generateDartClass
     (JObj [(''user'', JObj [(''name'', JStr ''x'')]), (''tags'', JArr [JObj [(''id'', JNum (Finite 1))]])])
     ''X''
   = Inr (concat (map classText
       [\<lparr>specName = ''User'', specFields = [(''name'', JStr ''x'')], specLevel = 1\<rparr>,
        \<lparr>specName = ''Tag'', specFields = [(''id'', JNum (Finite 1))], specLevel = 1\<rparr>,
        \<lparr>specName = ''X'',
         specFields = [(''user'', JObj [(''name'', JStr ''x'')]),
                       (''tags'', JArr [JObj [(''id'', JNum (Finite 1))]])],
         specLevel = 0\<rparr>]))
   \<and> emittedClasses
     (JObj [(''user'', JObj [(''name'', JStr ''x'')]), (''tags'', JArr [JObj [(''id'', JNum (Finite 1))]])])
     ''X''
   = Inr [\<lparr>specName = ''User'', specFields = [(''name'', JStr ''x'')], specLevel = 1\<rparr>,
          \<lparr>specName = ''Tag'', specFields = [(''id'', JNum (Finite 1))], specLevel = 1\<rparr>,
          \<lparr>specName = ''X'',
           specFields = [(''user'', JObj [(''name'', JStr ''x'')]),
                         (''tags'', JArr [JObj [(''id'', JNum (Finite 1))]])],
           specLevel = 0\<rparr>]
   \<and> definedBeforeUse []
         [\<lparr>specName = ''User'', specFields = [(''name'', JStr ''x'')], specLevel = 1\<rparr>,
          \<lparr>specName = ''Tag'', specFields = [(''id'', JNum (Finite 1))], specLevel = 1\<rparr>,
          \<lparr>specName = ''X'',
           specFields = [(''user'', JObj [(''name'', JStr ''x'')]),
                         (''tags'', JArr [JObj [(''id'', JNum (Finite 1))]])],
           specLevel = 0\<rparr>]"
proof -
  let ?J = "JObj [(''user'', JObj [(''name'', JStr ''x'')]),
                  (''tags'', JArr [JObj [(''id'', JNum (Finite 1))]])]"
  let ?S = "[\<lparr>specName = ''User'', specFields = [(''name'', JStr ''x'')], specLevel = 1\<rparr>,
          \<lparr>specName = ''Tag'', specFields = [(''id'', JNum (Finite 1))], specLevel = 1\<rparr>,
          \<lparr>specName = ''X'',
           specFields = [(''user'', JObj [(''name'', JStr ''x'')]),
                         (''tags'', JArr [JObj [(''id'', JNum (Finite 1))]])],
           specLevel = 0\<rparr>]"
  have out: "generateDartClass ?J ''X'' = Inr (concat (map classText ?S))"
    by (simp add: eval_defs spec_defs)
  have specs: "emittedClasses ?J ''X'' = Inr ?S"
    by (simp add: spec_defs eval_defs)
  from referenced_classes_defined_earlier [OF out] specs
  have "definedBeforeUse [] ?S" by simp
  with out specs show ?thesis by (simp only: simp_thms)
qed

text \<open>
  C4 as stated fails on \<^verbatim>\<open>{"address": {}, "Address": {}}\<close>: both fields are typed
  \<^verbatim>\<open>Address\<close>, and two classes of that name stand before the root class.
\<close>

theorem colliding_siblings_define_class_twice:
  "generateNestedClasses (JObj [(''address'', JObj []), (''Address'', JObj [])]) ''X''
     = Inr (''\<newline>class Address {\<newline>'' @
            ''\<newline>'' @
            ''  Address({\<newline>'' @
            ''  });\<newline>'' @
            ''\<newline>'' @
            ''  factory Address.fromJson(Map<String, dynamic> json) {\<newline>'' @
            ''    return Address(\<newline>'' @
            ''    );\<newline>'' @
            ''  }\<newline>'' @
            ''\<newline>'' @
            ''  Map<String, dynamic> toJson() {\<newline>'' @
            ''    return {\<newline>'' @
            ''    };\<newline>'' @
            ''  }\<newline>'' @
            ''}\<newline>'' @
            ''\<newline>class Address {\<newline>'' @
            ''\<newline>'' @
            ''  Address({\<newline>'' @
            ''  });\<newline>'' @
            ''\<newline>'' @
            ''  factory Address.fromJson(Map<String, dynamic> json) {\<newline>'' @
            ''    return Address(\<newline>'' @
            ''    );\<newline>'' @
            ''  }\<newline>'' @
            ''\<newline>'' @
            ''  Map<String, dynamic> toJson() {\<newline>'' @
            ''    return {\<newline>'' @
            ''    };\<newline>'' @
            ''  }\<newline>'' @
            ''}\<newline>'')
   \<and> emittedClasses (JObj [(''address'', JObj []), (''Address'', JObj [])]) ''X''
     = Inr [\<lparr>specName = ''Address'', specFields = [], specLevel = 1\<rparr>,
            \<lparr>specName = ''Address'', specFields = [], specLevel = 1\<rparr>,
            \<lparr>specName = ''X'',
             specFields = [(''address'', JObj []), (''Address'', JObj [])], specLevel = 0\<rparr>]
   \<and> generateFieldType (JObj []) ''address'' = ''Address''
   \<and> generateFieldType (JObj []) ''Address'' = ''Address''
   \<and> fieldRefs [(''address'', JObj []), (''Address'', JObj [])] = [''Address'', ''Address'']
   \<and> count_list [''Address'', ''Address''] ''Address'' = 2
   \<and> \<not> definedOnceBeforeUse []
         [\<lparr>specName = ''Address'', specFields = [], specLevel = 1\<rparr>,
          \<lparr>specName = ''Address'', specFields = [], specLevel = 1\<rparr>,
          \<lparr>specName = ''X'',
           specFields = [(''address'', JObj []), (''Address'', JObj [])], specLevel = 0\<rparr>]"
  by (simp add: eval_defs spec_defs)

text \<open>
  C5. The literal inference table: null is typed \<^verbatim>\<open>dynamic\<close>, 5 \<^verbatim>\<open>int\<close>, 5.5
  \<^verbatim>\<open>double\<close>, a string \<^verbatim>\<open>String\<close>, true \<^verbatim>\<open>bool\<close>, the empty array
  \<^verbatim>\<open>List<dynamic>\<close>, \<^verbatim>\<open>[1,2]\<close> \<^verbatim>\<open>List<int>\<close>; the key \<^verbatim>\<open>items\<close> with the value
  \<^verbatim>\<open>[{"b":1}]\<close> is typed \<^verbatim>\<open>List<Item>\<close>, and the collector emits a class \<^verbatim>\<open>Item\<close>
  with an \<^verbatim>\<open>int\<close> field \<^verbatim>\<open>b\<close>.
\<close>

theorem inference_table:
  "generateFieldType JNull key = ''dynamic''
   \<and> generateFieldType (JNum (Finite 5)) key = ''int''
   \<and> generateFieldType (JNum (Finite 5.5)) key = ''double''
   \<and> generateFieldType (JStr ''x'') key = ''String''
   \<and> generateFieldType (JBool True) key = ''bool''
   \<and> generateFieldType (JArr []) key = ''List<dynamic>''
   \<and> generateFieldType (JArr [JNum (Finite 1), JNum (Finite 2)]) key = ''List<int>''
   \<and> generateFieldType (JArr [JObj [(''b'', JNum (Finite 1))]]) ''items'' = ''List<Item>''
   \<and> generateNestedClasses (JObj [(''items'', JArr [JObj [(''b'', JNum (Finite 1))]])]) cn
       = Inr (''\<newline>class Item {\<newline>'' @
              ''  final int? b;\<newline>'' @
              ''\<newline>'' @
              ''  Item({\<newline>'' @
              ''    this.b,\<newline>'' @
              ''  });\<newline>'' @
              ''\<newline>'' @
              ''  factory Item.fromJson(Map<String, dynamic> json) {\<newline>'' @
              ''    return Item(\<newline>'' @
              ''      b: json['b'],\<newline>'' @
              ''    );\<newline>'' @
              ''  }\<newline>'' @
              ''\<newline>'' @
              ''  Map<String, dynamic> toJson() {\<newline>'' @
              ''    return {\<newline>'' @
              ''      'b': b,\<newline>'' @
              ''    };\<newline>'' @
              ''  }\<newline>'' @
              ''}\<newline>'')"
  by (simp add: eval_defs)

text \<open>
  C6, amended. For an entry the collector emits a class for (an object-valued field, or an
  array field whose first element has type object), the collector's text holds the classes
  of that value's own descendants, directly followed by the class of the value; the output
  is the collector's text followed by the root class, which is last. The first class of the
  output is a leaf: none of its fields makes the collector emit a class. It is the deepest
  class when no two emitted classes are nested at the same depth (a single chain of
  nesting); with two classes at the same depth it need not be. The first two parts are
  about any value the collector is called on, so they hold at every level of nesting.
\<close>

theorem nested_classes_precede_their_parent:
  assumes "Object_entries obj = Inr es"
    and "(key, value) \<in> set es"
    and "nestedTarget key value = Some (n, item)"
    and "generateNestedClasses obj cn = Inr nested"
  shows "(\<exists>pre desc content post rootContent.
            generateNestedClasses item n = Inr desc
            \<and> generateClassContent item n = Inr content
            \<and> generateClassContent obj cn = Inr rootContent
            \<and> nested = pre @ desc @ classBlock n content @ post
            \<and> generateDartClass obj cn
                = Inr (pre @ desc @ classBlock n content @ post @ classBlock cn rootContent))
         \<and> (\<exists>n' item' content' post'.
               nested = classBlock n' content' @ post'
               \<and> generateNestedClasses item' n' = Inr []
               \<and> generateClassContent item' n' = Inr content')
         \<and> (\<exists>specs.
               emittedClasses obj cn = Inr specs
               \<and> generateDartClass obj cn = Inr (concat (map classText specs))
               \<and> leafClass (hd specs)
               \<and> (distinct (map specLevel specs) \<longrightarrow> deepestFirst specs))"
proof -
  from assms(1,4) have loop: "nestedLoop es [] = Inr nested"
    by (simp add: generateNestedClasses.simps)
  from nestedLoop_member [OF loop assms(2)] obtain pre t post where
    t: "entryText key value = Inr t" "nested = pre @ t @ post"
    by blast
  from t(1) assms(3) obtain desc content where
    d: "generateNestedClasses item n = Inr desc" "generateClassContent item n = Inr content"
      "t = desc @ classBlock n content"
    by (auto simp: entryText_def split: sum.splits)
  from assms(1) obtain rootContent where
    root: "generateClassContent obj cn = Inr rootContent"
    by (simp add: generateClassContent_text)
  have out: "generateDartClass obj cn = Inr (nested @ classBlock cn rootContent)"
    by (simp add: generateDartClass_def assms(4) root classBlock_def)
  have first: "\<exists>pre desc content post rootContent.
            generateNestedClasses item n = Inr desc
            \<and> generateClassContent item n = Inr content
            \<and> generateClassContent obj cn = Inr rootContent
            \<and> nested = pre @ desc @ classBlock n content @ post
            \<and> generateDartClass obj cn
                = Inr (pre @ desc @ classBlock n content @ post @ classBlock cn rootContent)"
    using d root out t(2) by auto
  have nonempty: "nested \<noteq> []"
    by (simp add: t(2) d(3) classBlock_def)
  have second: "\<exists>n' item' content' post'.
               nested = classBlock n' content' @ post'
               \<and> generateNestedClasses item' n' = Inr []
               \<and> generateClassContent item' n' = Inr content'"
    by (rule collector_first_leaf [OF assms(4) nonempty])
  from assms(4) obtain ns where
    ns: "nestedClassSpecs obj 0 = Inr ns" "nested = renderClasses ns"
    by (cases "nestedClassSpecs obj 0") (simp_all add: collector_text [of obj cn 0])
  let ?root = "\<lparr>specName = cn, specFields = es, specLevel = 0\<rparr>"
  from nonempty ns(2) obtain c cs where c: "ns = c # cs"
    by (cases ns) simp_all
  have emitted: "emittedClasses obj cn = Inr (ns @ [?root])"
    by (simp add: emittedClasses_def ns(1) assms(1))
  have rendered: "generateDartClass obj cn = Inr (concat (map classText (ns @ [?root])))"
    using emitted by (simp add: generateDartClass_text renderClasses_def)
  have leaf: "leafClass (hd (ns @ [?root]))"
    using collector_first_leaf_class [OF ns(1)] c by simp
  have chain: "deepestFirst (ns @ [?root])" if "distinct (map specLevel (ns @ [?root]))"
  proof -
    from that have "distinct (map specLevel ns)" by simp
    with ns(1) have "deepestFirst ns" by (rule collector_chain)
    then show ?thesis by (simp add: c)
  qed
  from emitted rendered leaf chain
  have third: "\<exists>specs.
               emittedClasses obj cn = Inr specs
               \<and> generateDartClass obj cn = Inr (concat (map classText specs))
               \<and> leafClass (hd specs)
               \<and> (distinct (map specLevel specs) \<longrightarrow> deepestFirst specs)"
    by blast
  from first second third show ?thesis
    by (intro conjI)
qed

text \<open>
  The theorem at \<^verbatim>\<open>{"n": 1, "b": {"c": {"k": "v"}}}\<close> and its field \<^verbatim>\<open>b\<close>: a single
  chain, whose classes come in the order \<^verbatim>\<open>C\<close>, \<^verbatim>\<open>B\<close>, \<^verbatim>\<open>X\<close>.
\<close>

theorem nested_classes_precede_their_parent_witness:
  "Object_entries (JObj [(''n'', JNum (Finite 1)), (''b'', JObj [(''c'', JObj [(''k'', JStr ''v'')])])])
     = Inr [(''n'', JNum (Finite 1)), (''b'', JObj [(''c'', JObj [(''k'', JStr ''v'')])])]
   \<and> (''b'', JObj [(''c'', JObj [(''k'', JStr ''v'')])])
       \<in> set [(''n'', JNum (Finite 1)), (''b'', JObj [(''c'', JObj [(''k'', JStr ''v'')])])]
   \<and> nestedTarget ''b'' (JObj [(''c'', JObj [(''k'', JStr ''v'')])])
       = Some (''B'', JObj [(''c'', JObj [(''k'', JStr ''v'')])])
   \<and> generateNestedClasses
         (JObj [(''n'', JNum (Finite 1)), (''b'', JObj [(''c'', JObj [(''k'', JStr ''v'')])])]) ''X''
       = Inr (classBlock ''C'' (classContentText [(''k'', JStr ''v'')] ''C'')
              @ classBlock ''B'' (classContentText [(''c'', JObj [(''k'', JStr ''v'')])] ''B''))
   \<and> emittedClasses
         (JObj [(''n'', JNum (Finite 1)), (''b'', JObj [(''c'', JObj [(''k'', JStr ''v'')])])]) ''X''
       = Inr [\<lparr>specName = ''C'', specFields = [(''k'', JStr ''v'')], specLevel = 2\<rparr>,
              \<lparr>specName = ''B'', specFields = [(''c'', JObj [(''k'', JStr ''v'')])], specLevel = 1\<rparr>,
              \<lparr>specName = ''X'',
               specFields = [(''n'', JNum (Finite 1)),
                             (''b'', JObj [(''c'', JObj [(''k'', JStr ''v'')])])],
               specLevel = 0\<rparr>]
   \<and> distinct (map specLevel
         [\<lparr>specName = ''C'', specFields = [(''k'', JStr ''v'')], specLevel = 2\<rparr>,
          \<lparr>specName = ''B'', specFields = [(''c'', JObj [(''k'', JStr ''v'')])], specLevel = 1\<rparr>,
          \<lparr>specName = ''X'',
           specFields = [(''n'', JNum (Finite 1)),
                         (''b'', JObj [(''c'', JObj [(''k'', JStr ''v'')])])],
           specLevel = 0\<rparr>])
   \<and> leafClass \<lparr>specName = ''C'', specFields = [(''k'', JStr ''v'')], specLevel = 2\<rparr>
   \<and> deepestFirst
         [\<lparr>specName = ''C'', specFields = [(''k'', JStr ''v'')], specLevel = 2\<rparr>,
          \<lparr>specName = ''B'', specFields = [(''c'', JObj [(''k'', JStr ''v'')])], specLevel = 1\<rparr>,
          \<lparr>specName = ''X'',
           specFields = [(''n'', JNum (Finite 1)),
                         (''b'', JObj [(''c'', JObj [(''k'', JStr ''v'')])])],
           specLevel = 0\<rparr>]
   \<and> (\<exists>pre desc content post rootContent.
         generateNestedClasses (JObj [(''c'', JObj [(''k'', JStr ''v'')])]) ''B'' = Inr desc
         \<and> generateClassContent (JObj [(''c'', JObj [(''k'', JStr ''v'')])]) ''B'' = Inr content
         \<and> generateClassContent
              (JObj [(''n'', JNum (Finite 1)), (''b'', JObj [(''c'', JObj [(''k'', JStr ''v'')])])])
              ''X'' = Inr rootContent
         \<and> classBlock ''C'' (classContentText [(''k'', JStr ''v'')] ''C'')
              @ classBlock ''B'' (classContentText [(''c'', JObj [(''k'', JStr ''v'')])] ''B'')
             = pre @ desc @ classBlock ''B'' content @ post
         \<and> generateDartClass
              (JObj [(''n'', JNum (Finite 1)), (''b'', JObj [(''c'', JObj [(''k'', JStr ''v'')])])])
              ''X''
             = Inr (pre @ desc @ classBlock ''B'' content @ post @ classBlock ''X'' rootContent))"
proof -
  let ?V = "JObj [(''c'', JObj [(''k'', JStr ''v'')])]"
  let ?J = "JObj [(''n'', JNum (Finite 1)), (''b'', ?V)]"
  let ?S = "[\<lparr>specName = ''C'', specFields = [(''k'', JStr ''v'')], specLevel = 2\<rparr>,
          \<lparr>specName = ''B'', specFields = [(''c'', JObj [(''k'', JStr ''v'')])], specLevel = 1\<rparr>,
          \<lparr>specName = ''X'',
           specFields = [(''n'', JNum (Finite 1)),
                         (''b'', JObj [(''c'', JObj [(''k'', JStr ''v'')])])],
           specLevel = 0\<rparr>]"
  have h1: "Object_entries ?J = Inr [(''n'', JNum (Finite 1)), (''b'', ?V)]"
    by simp
  have h2: "(''b'', ?V) \<in> set [(''n'', JNum (Finite 1)), (''b'', ?V)]"
    by simp
  have h3: "nestedTarget ''b'' ?V = Some (''B'', ?V)"
    by (simp add: nestedTarget_def eval_defs)
  have h4: "generateNestedClasses ?J ''X''
       = Inr (classBlock ''C'' (classContentText [(''k'', JStr ''v'')] ''C'')
              @ classBlock ''B'' (classContentText [(''c'', JObj [(''k'', JStr ''v'')])] ''B''))"
    by (simp add: eval_defs spec_defs)
  have specs: "emittedClasses ?J ''X'' = Inr ?S"
    by (simp add: spec_defs eval_defs)
  have dist: "distinct (map specLevel ?S)"
    by simp
  note facts = nested_classes_precede_their_parent [OF h1 h2 h3 h4]
  from facts specs dist have leaf: "leafClass (hd ?S)" and deep: "deepestFirst ?S"
    by auto
  from facts have first: "\<exists>pre desc content post rootContent.
         generateNestedClasses ?V ''B'' = Inr desc
         \<and> generateClassContent ?V ''B'' = Inr content
         \<and> generateClassContent ?J ''X'' = Inr rootContent
         \<and> classBlock ''C'' (classContentText [(''k'', JStr ''v'')] ''C'')
              @ classBlock ''B'' (classContentText [(''c'', JObj [(''k'', JStr ''v'')])] ''B'')
             = pre @ desc @ classBlock ''B'' content @ post
         \<and> generateDartClass ?J ''X''
             = Inr (pre @ desc @ classBlock ''B'' content @ post @ classBlock ''X'' rootContent)"
    by (rule conjunct1)
  from leaf have leaf': "leafClass \<lparr>specName = ''C'', specFields = [(''k'', JStr ''v'')], specLevel = 2\<rparr>"
    by simp
  from h1 h2 h3 h4 specs dist leaf' deep first show ?thesis
    by (intro conjI)
qed

text \<open>
  C6 as stated fails on \<^verbatim>\<open>{"a": {}, "b": {"c": {}}}\<close>: the classes come in the order
  \<^verbatim>\<open>A\<close>, \<^verbatim>\<open>C\<close>, \<^verbatim>\<open>B\<close>, \<^verbatim>\<open>X\<close>, and the first, \<^verbatim>\<open>A\<close>, is nested one level deep while
  \<^verbatim>\<open>C\<close> is nested two levels deep.
\<close>

theorem deepest_class_not_first:
  "generateDartClass (JObj [(''a'', JObj []), (''b'', JObj [(''c'', JObj [])])]) ''X''
     = Inr (classBlock ''A'' (classContentText [] ''A'')
            @ classBlock ''C'' (classContentText [] ''C'')
            @ classBlock ''B'' (classContentText [(''c'', JObj [])] ''B'')
            @ classBlock ''X''
                (classContentText [(''a'', JObj []), (''b'', JObj [(''c'', JObj [])])] ''X''))
   \<and> emittedClasses (JObj [(''a'', JObj []), (''b'', JObj [(''c'', JObj [])])]) ''X''
     = Inr [\<lparr>specName = ''A'', specFields = [], specLevel = 1\<rparr>,
            \<lparr>specName = ''C'', specFields = [], specLevel = 2\<rparr>,
            \<lparr>specName = ''B'', specFields = [(''c'', JObj [])], specLevel = 1\<rparr>,
            \<lparr>specName = ''X'',
             specFields = [(''a'', JObj []), (''b'', JObj [(''c'', JObj [])])],
             specLevel = 0\<rparr>]
   \<and> \<not> deepestFirst
         [\<lparr>specName = ''A'', specFields = [], specLevel = 1\<rparr>,
          \<lparr>specName = ''C'', specFields = [], specLevel = 2\<rparr>,
          \<lparr>specName = ''B'', specFields = [(''c'', JObj [])], specLevel = 1\<rparr>,
          \<lparr>specName = ''X'',
           specFields = [(''a'', JObj []), (''b'', JObj [(''c'', JObj [])])],
           specLevel = 0\<rparr>]"
  by (simp add: eval_defs spec_defs)

text \<open>
  C7, amended. When \<^verbatim>\<open>JSON.parse\<close> throws on the input text, the conversion stores no
  output: the stored output, the input and the class name are unchanged, and exactly one
  toast is raised, with the title \<^verbatim>\<open>Error\<close> and the variant \<^verbatim>\<open>destructive\<close>. Its
  message is not the same for every such text: a text that is empty after \<^verbatim>\<open>trim\<close> is
  turned away by the guard before the parser is called, with the empty-input message; any
  other text gets the invalid-format message of the \<^verbatim>\<open>catch\<close> block.
\<close>

theorem invalid_json_leaves_output:
  assumes "JSON_parse (jsonInput s) = Inl e"
  shows "dartOutput (convertJsonToDart JSON_parse s) = dartOutput s
     \<and> toasts (convertJsonToDart JSON_parse s)
         = toasts s @ [if String_trim (jsonInput s) = [] then emptyInputToast else invalidJsonToast]
     \<and> title (last (toasts (convertJsonToDart JSON_parse s))) = ''Error''
     \<and> variant (last (toasts (convertJsonToDart JSON_parse s))) = ''destructive''
     \<and> jsonInput (convertJsonToDart JSON_parse s) = jsonInput s
     \<and> className (convertJsonToDart JSON_parse s) = className s"
  using assms
  by (simp add: convertJsonToDart_def Let_def emptyInputToast_def invalidJsonToast_def)

text \<open>
  The theorem at the text \<^verbatim>\<open>{invalid\<close> and at a text of one no-break space, with a parser
  that rejects both.
\<close>

theorem invalid_json_leaves_output_witness:
  "(\<lambda>text. Inl SyntaxError :: error + json)
      (jsonInput \<lparr>jsonInput = ''{invalid'', className = ''X'', dartOutput = ''class Old {}'',
                  isConverting = False, toasts = []\<rparr>) = Inl SyntaxError
   \<and> dartOutput (convertJsonToDart (\<lambda>text. Inl SyntaxError)
        \<lparr>jsonInput = ''{invalid'', className = ''X'', dartOutput = ''class Old {}'',
         isConverting = False, toasts = []\<rparr>) = ''class Old {}''
   \<and> toasts (convertJsonToDart (\<lambda>text. Inl SyntaxError)
        \<lparr>jsonInput = ''{invalid'', className = ''X'', dartOutput = ''class Old {}'',
         isConverting = False, toasts = []\<rparr>) = [invalidJsonToast]
   \<and> dartOutput (convertJsonToDart (\<lambda>text. Inl SyntaxError)
        \<lparr>jsonInput = [CHR 0xA0], className = ''X'', dartOutput = ''class Old {}'',
         isConverting = False, toasts = []\<rparr>) = ''class Old {}''
   \<and> toasts (convertJsonToDart (\<lambda>text. Inl SyntaxError)
        \<lparr>jsonInput = [CHR 0xA0], className = ''X'', dartOutput = ''class Old {}'',
         isConverting = False, toasts = []\<rparr>) = [emptyInputToast]"
  using invalid_json_leaves_output
    [of "\<lambda>text. Inl SyntaxError"
        "\<lparr>jsonInput = ''{invalid'', className = ''X'', dartOutput = ''class Old {}'',
          isConverting = False, toasts = []\<rparr>" SyntaxError]
    invalid_json_leaves_output
    [of "\<lambda>text. Inl SyntaxError"
        "\<lparr>jsonInput = [CHR 0xA0], className = ''X'', dartOutput = ''class Old {}'',
          isConverting = False, toasts = []\<rparr>" SyntaxError]
  by (simp add: String_trim_def isWhiteSpace_def)

text \<open>
  C7 as stated fails on a blank text: the texts \<^verbatim>\<open>" "\<close> and \<^verbatim>\<open>{invalid\<close> are both not
  JSON, and the two error toasts they raise differ in their message.
\<close>

theorem blank_and_malformed_text_raise_different_errors:
  "String_trim '' '' = []
   \<and> toasts (convertJsonToDart (\<lambda>text. Inl SyntaxError)
        \<lparr>jsonInput = '' '', className = ''X'', dartOutput = [],
         isConverting = False, toasts = []\<rparr>) = [emptyInputToast]
   \<and> toasts (convertJsonToDart (\<lambda>text. Inl SyntaxError)
        \<lparr>jsonInput = ''{invalid'', className = ''X'', dartOutput = [],
         isConverting = False, toasts = []\<rparr>) = [invalidJsonToast]
   \<and> description emptyInputToast = ''Please enter a valid JSON string''
   \<and> description invalidJsonToast = ''Invalid JSON format. Please check your input.''
   \<and> emptyInputToast \<noteq> invalidJsonToast"
  by (simp add: convertJsonToDart_def String_trim_def isWhiteSpace_def emptyInputToast_def
      invalidJsonToast_def)

text \<open>
  C8. For a class all of whose fields have a scalar declared type, the deserializer assigns
  and the serializer writes the same sequence of keys, the keys of the entries in order:
  the body of \<^verbatim>\<open>fromJson\<close> is one line \<^verbatim>\<open>key: json['key'],\<close> per key and the body of
  \<^verbatim>\<open>toJson\<close> one line \<^verbatim>\<open>'key': key,\<close> per key (\<open>0x27\<close> is the apostrophe).
\<close>

theorem serializer_keys_match_deserializer:
  assumes "Object_entries obj = Inr es"
    and "list_all (\<lambda>(key, value). isScalar (fieldTypeExpr value key)) es"
  shows "generateClassContent obj cn =
     Inr (fieldsLoop es [] @ ''\<newline>''
          @ ''  '' @ cn @ ''({\<newline>'' @ constructorLoop (map fst es) [] @ ''  });\<newline>\<newline>''
          @ ''  factory '' @ cn @ ''.fromJson(Map<String, dynamic> json) {\<newline>''
          @ ''    return '' @ cn @ ''(\<newline>''
          @ concat (map (\<lambda>key. ''      '' @ key @ '': json['' @ [CHR 0x27] @ key @ [CHR 0x27]
                                  @ ''],\<newline>'') (map fst es))
          @ ''    );\<newline>''
          @ ''  }\<newline>\<newline>''
          @ ''  Map<String, dynamic> toJson() {\<newline>''
          @ ''    return {\<newline>''
          @ concat (map (\<lambda>key. ''      '' @ [CHR 0x27] @ key @ [CHR 0x27] @ '': '' @ key
                                  @ '',\<newline>'') (map fst es))
          @ ''    };\<newline>''
          @ ''  }\<newline>'')"
  using assms
  by (simp add: generateClassContent_text classContentText_def fromJsonLoop_scalar
      toJsonLoop_scalar)

text \<open>The theorem at \<^verbatim>\<open>{"id": 7, "name": "x", "ok": true}\<close>.\<close>

theorem serializer_keys_match_deserializer_witness:
  "Object_entries (JObj [(''id'', JNum (Finite 7)), (''name'', JStr ''x''), (''ok'', JBool True)])
     = Inr [(''id'', JNum (Finite 7)), (''name'', JStr ''x''), (''ok'', JBool True)]
   \<and> list_all (\<lambda>(key, value). isScalar (fieldTypeExpr value key))
        [(''id'', JNum (Finite 7)), (''name'', JStr ''x''), (''ok'', JBool True)]
   \<and> generateClassContent
        (JObj [(''id'', JNum (Finite 7)), (''name'', JStr ''x''), (''ok'', JBool True)]) ''User''
      = Inr (''  final int? id;\<newline>'' @
             ''  final String? name;\<newline>'' @
             ''  final bool? ok;\<newline>'' @
             ''\<newline>'' @
             ''  User({\<newline>'' @
             ''    this.id,\<newline>'' @
             ''    this.name,\<newline>'' @
             ''    this.ok,\<newline>'' @
             ''  });\<newline>'' @
             ''\<newline>'' @
             ''  factory User.fromJson(Map<String, dynamic> json) {\<newline>'' @
             ''    return User(\<newline>'' @
             ''      id: json['id'],\<newline>'' @
             ''      name: json['name'],\<newline>'' @
             ''      ok: json['ok'],\<newline>'' @
             ''    );\<newline>'' @
             ''  }\<newline>'' @
             ''\<newline>'' @
             ''  Map<String, dynamic> toJson() {\<newline>'' @
             ''    return {\<newline>'' @
             ''      'id': id,\<newline>'' @
             ''      'name': name,\<newline>'' @
             ''      'ok': ok,\<newline>'' @
             ''    };\<newline>'' @
             ''  }\<newline>'')"
  using serializer_keys_match_deserializer
    [of "JObj [(''id'', JNum (Finite 7)), (''name'', JStr ''x''), (''ok'', JBool True)]"
        "[(''id'', JNum (Finite 7)), (''name'', JStr ''x''), (''ok'', JBool True)]" "''User''"]
  by (simp add: fieldsLoop_def constructorLoop_def)

text \<open>
  C9. On the object \<^verbatim>\<open>{"": 1}\<close> generation returns a text: the field is declared with
  the type \<^verbatim>\<open>int\<close> and the empty name, and the capitalizer maps the empty string to the
  empty string.
\<close>

theorem empty_key_generates:
  "capitalizeFirst [] = []
   \<and> generateFieldType (JNum (Finite 1)) [] = ''int''
   \<and> generateDartClass (JObj [([], JNum (Finite 1))]) ''X''
       = Inr (''\<newline>class X {\<newline>'' @
              ''  final int? '' @ [] @ '';\<newline>'' @
              ''\<newline>'' @
              ''  X({\<newline>'' @
              ''    this.'' @ [] @ '',\<newline>'' @
              ''  });\<newline>'' @
              ''\<newline>'' @
              ''  factory X.fromJson(Map<String, dynamic> json) {\<newline>'' @
              ''    return X(\<newline>'' @
              ''      '' @ [] @ '': json['' @ quoted [] @ ''],\<newline>'' @
              ''    );\<newline>'' @
              ''  }\<newline>'' @
              ''\<newline>'' @
              ''  Map<String, dynamic> toJson() {\<newline>'' @
              ''    return {\<newline>'' @
              ''      '' @ quoted [] @ '': '' @ [] @ '',\<newline>'' @
              ''    };\<newline>'' @
              ''  }\<newline>'' @
              ''}\<newline>'')"
  by (simp add: eval_defs)

text \<open>
  C10. The collector never reads its class-name argument, so the nested-classes text is
  the same for any two root class names (and so is whether it throws). The root class name
  appears in the output only in the final block: in the class header, the constructor, the
  factory and the constructor call the factory returns.
\<close>

theorem root_name_only_in_root_block:
  "generateNestedClasses json cn1 = generateNestedClasses json cn2
   \<and> generateDartClass json cn1 =
       (case generateNestedClasses json cn2 of
          Inl e \<Rightarrow> Inl e
        | Inr nestedClasses \<Rightarrow>
            (case Object_entries json of
               Inl e \<Rightarrow> Inl e
             | Inr es \<Rightarrow>
                 Inr (nestedClasses
                      @ ''\<newline>class '' @ cn1 @ '' {\<newline>''
                      @ fieldsLoop es [] @ ''\<newline>''
                      @ ''  '' @ cn1 @ ''({\<newline>''
                      @ constructorLoop (map fst es) [] @ ''  });\<newline>\<newline>''
                      @ ''  factory '' @ cn1 @ ''.fromJson(Map<String, dynamic> json) {\<newline>''
                      @ ''    return '' @ cn1 @ ''(\<newline>''
                      @ fromJsonLoop es [] @ ''    );\<newline>''
                      @ ''  }\<newline>\<newline>''
                      @ ''  Map<String, dynamic> toJson() {\<newline>''
                      @ ''    return {\<newline>''
                      @ toJsonLoop es [] @ ''    };\<newline>''
                      @ ''  }\<newline>''
                      @ ''}\<newline>'')))"
proof -
  have root: "generateDartClass json cn1 =
      (case generateNestedClasses json cn1 of
         Inl e \<Rightarrow> Inl e
       | Inr nestedClasses \<Rightarrow>
           (case Object_entries json of
              Inl e \<Rightarrow> Inl e
            | Inr es \<Rightarrow>
                Inr (nestedClasses
                     @ ''\<newline>class '' @ cn1 @ '' {\<newline>''
                     @ fieldsLoop es [] @ ''\<newline>''
                     @ ''  '' @ cn1 @ ''({\<newline>''
                     @ constructorLoop (map fst es) [] @ ''  });\<newline>\<newline>''
                     @ ''  factory '' @ cn1 @ ''.fromJson(Map<String, dynamic> json) {\<newline>''
                     @ ''    return '' @ cn1 @ ''(\<newline>''
                     @ fromJsonLoop es [] @ ''    );\<newline>''
                     @ ''  }\<newline>\<newline>''
                     @ ''  Map<String, dynamic> toJson() {\<newline>''
                     @ ''    return {\<newline>''
                     @ toJsonLoop es [] @ ''    };\<newline>''
                     @ ''  }\<newline>''
                     @ ''}\<newline>'')))"
    by (cases "generateNestedClasses json cn1"; cases "Object_entries json")
      (simp_all add: generateDartClass_def generateClassContent_text classContentText_def)
  have same: "generateNestedClasses json cn2 = generateNestedClasses json cn1"
    by (simp add: generateNestedClasses.simps)
  show ?thesis
    unfolding same by (rule conjI [OF refl root])
qed

end
